theory Spec2Isabelle
  imports Complex_Main "HOL-Library.Word" "HOL-Library.Signed_Division"
begin

unbundle bit_operations_syntax

section \<open>Core voxel data (VoxelCore.h)\<close>

text \<open>
  \<^verbatim>\<open>struct Voxel\<close>: four \<^verbatim>\<open>uint8_t\<close> fields. The two constructors are
  \<^verbatim>\<open>Voxel()\<close> and \<^verbatim>\<open>Voxel(mat, hp = 255)\<close>; both set \<^verbatim>\<open>flags = 0\<close> and
  \<^verbatim>\<open>structuralSupport = 255\<close>.
\<close>

record Voxel =
  materialID :: "8 word"
  health :: "8 word"
  flags :: "8 word"
  structuralSupport :: "8 word"

definition Voxel_default :: Voxel where
  "Voxel_default = \<lparr>materialID = 0, health = 255, flags = 0, structuralSupport = 255\<rparr>"

definition Voxel_mk :: "8 word \<Rightarrow> 8 word \<Rightarrow> Voxel" where
  "Voxel_mk mat hp = \<lparr>materialID = mat, health = hp, flags = 0, structuralSupport = 255\<rparr>"

text \<open>
  \<^verbatim>\<open>struct Material\<close>. The \<^verbatim>\<open>float\<close> payload is carried as the decimal literal written
  in the source; the palette never computes with it.
\<close>

record Material =
  name :: string
  color :: "real \<times> real \<times> real"
  roughness :: real
  metallic :: real
  emissive :: real
  density :: real
  hardness :: real
  compressionStrength :: real
  tensileStrength :: real
  conductivity :: real
  flashPoint :: real
  meltingPoint :: real
  isFlammable :: bool
  isLiquid :: bool
  isGas :: bool
  isTransparent :: bool
  isConductive :: bool

definition Material_mk :: "string \<Rightarrow> real \<times> real \<times> real \<Rightarrow> real \<Rightarrow> Material" where
  "Material_mk n c h =
     \<lparr>name = n, color = c, roughness = 0.5, metallic = 0, emissive = 0,
      density = 1000, hardness = h, compressionStrength = h, tensileStrength = h * 0.5,
      conductivity = 0.1, flashPoint = 500, meltingPoint = 1000,
      isFlammable = False, isLiquid = False, isGas = False, isTransparent = False,
      isConductive = False\<rparr>"

text \<open>Predefined material ids (\<^verbatim>\<open>enum StandardMaterials\<close>).\<close>

definition AIR :: "8 word" where "AIR = 0"
definition STONE :: "8 word" where "STONE = 1"
definition DIRT :: "8 word" where "DIRT = 2"
definition CUSTOM_START :: "8 word" where "CUSTOM_START = 32"

subsection \<open>MaterialPalette\<close>

text \<open>
  The two exceptions the palette throws: \<^verbatim>\<open>std::runtime_error\<close> from \<^verbatim>\<open>addMaterial\<close>
  (the spec's ResourceExhausted) and \<^verbatim>\<open>std::out_of_range\<close> from \<^verbatim>\<open>getMaterial\<close>.
\<close>

datatype error = ResourceExhausted | OutOfRange

record MaterialPalette =
  materials :: "Material list"

definition getMaterialCount :: "MaterialPalette \<Rightarrow> nat" where
  "getMaterialCount p = length (materials p)"

text \<open>
  \<^verbatim>\<open>addMaterial\<close> returns the thrown error or the new id, together with the palette after
  the call: the throw happens before \<^verbatim>\<open>push_back\<close>. The id is
  \<^verbatim>\<open>static_cast<uint8_t>(materials.size() - 1)\<close>.
\<close>

definition addMaterial :: "Material \<Rightarrow> MaterialPalette \<Rightarrow> (error + 8 word) \<times> MaterialPalette" where
  "addMaterial material p =
     (if length (materials p) \<ge> 255 then (Inl ResourceExhausted, p)
      else (let p' = p\<lparr>materials := materials p @ [material]\<rparr>
            in (Inr (of_nat (length (materials p') - 1)), p')))"

definition getMaterial :: "8 word \<Rightarrow> MaterialPalette \<Rightarrow> error + Material" where
  "getMaterial i p =
     (if unat i \<ge> length (materials p) then Inl OutOfRange else Inr (materials p ! unat i))"

definition initializeStandardMaterials :: "MaterialPalette \<Rightarrow> MaterialPalette" where
  "initializeStandardMaterials p =
    (let air = (Material_mk ''Air'' (0, 0, 0) 0)
               \<lparr>density := 1.225, isGas := True, isTransparent := True\<rparr>;
         stone = (Material_mk ''Stone'' (0.5, 0.5, 0.5) 0.8)
               \<lparr>density := 2700, compressionStrength := 0.8, tensileStrength := 0.4\<rparr>;
         dirt = (Material_mk ''Dirt'' (0.4, 0.3, 0.2) 0.3)
               \<lparr>density := 1500, compressionStrength := 0.3, tensileStrength := 0.1\<rparr>;
         grass = (Material_mk ''Grass'' (0.2, 0.7, 0.2) 0.2)
               \<lparr>density := 800, flashPoint := 250, isFlammable := True\<rparr>;
         sand = (Material_mk ''Sand'' (0.8, 0.7, 0.5) 0.4)
               \<lparr>density := 1600, compressionStrength := 0.2, tensileStrength := 0.05\<rparr>;
         water = (Material_mk ''Water'' (0.2, 0.4, 0.8) 0)
               \<lparr>density := 1000, conductivity := 0.6, isLiquid := True, isTransparent := True\<rparr>;
         wood = (Material_mk ''Wood'' (0.6, 0.4, 0.2) 0.5)
               \<lparr>density := 600, compressionStrength := 0.5, tensileStrength := 0.3,
                flashPoint := 300, isFlammable := True\<rparr>;
         metal = (Material_mk ''Metal'' (0.7, 0.7, 0.7) 0.9)
               \<lparr>metallic := 1, density := 7850, compressionStrength := 0.9,
                tensileStrength := 0.8, conductivity := 80, meltingPoint := 1538,
                isConductive := True\<rparr>;
         lava = (Material_mk ''Lava'' (1, 0.3, 0) 0.7)
               \<lparr>emissive := 1, density := 2800, flashPoint := 0, isLiquid := True\<rparr>;
         ice = (Material_mk ''Ice'' (0.8, 0.9, 1) 0.6)
               \<lparr>density := 917, compressionStrength := 0.4, tensileStrength := 0.2,
                meltingPoint := 0, isTransparent := True\<rparr>;
         snow = (Material_mk ''Snow'' (0.95, 0.95, 0.95) 0.1)
               \<lparr>density := 300, compressionStrength := 0.1, tensileStrength := 0.05,
                meltingPoint := 0\<rparr>;
         coal = (Material_mk ''Coal'' (0.1, 0.1, 0.1) 0.7)
               \<lparr>density := 1300, compressionStrength := 0.6, flashPoint := 200,
                isFlammable := True\<rparr>;
         oil = (Material_mk ''Oil'' (0.2, 0.2, 0.1) 0.3)
               \<lparr>density := 850, flashPoint := 150, isFlammable := True, isLiquid := True\<rparr>
     in p\<lparr>materials := materials p @
          [air, stone, dirt, grass, sand, water, wood, metal, lava, ice, snow, coal, oil]\<rparr>)"

definition MaterialPalette_new :: MaterialPalette where
  "MaterialPalette_new = initializeStandardMaterials \<lparr>materials = []\<rparr>"

text \<open>
  The palettes a program can hold: the constructed one, and any palette obtained from one of
  them by a call of \<^verbatim>\<open>addMaterial\<close> (a throwing call leaves its argument).
\<close>

inductive palette_reachable :: "MaterialPalette \<Rightarrow> bool" where
  reach_new: "palette_reachable MaterialPalette_new"
| reach_add: "palette_reachable p \<Longrightarrow> palette_reachable (snd (addMaterial m p))"

subsection \<open>Positions\<close>

text \<open>
  \<^verbatim>\<open>VoxelPos\<close> and \<^verbatim>\<open>ChunkPos\<close> hold three \<^verbatim>\<open>int32_t\<close>. They are modelled as
  integers; \<^verbatim>\<open>/\<close> and \<^verbatim>\<open>%\<close> of C++ truncate towards zero, which is \<open>sdiv\<close> and
  \<open>smod\<close>. No operation below leaves the 32-bit range on the inputs considered.
\<close>

datatype VoxelPos = VoxelPos (pos_x: int) (pos_y: int) (pos_z: int)

datatype ChunkPos = ChunkPos (chunk_x: int) (chunk_y: int) (chunk_z: int)

definition ChunkPos_of :: "VoxelPos \<Rightarrow> int \<Rightarrow> ChunkPos" where
  "ChunkPos_of voxelPos chunkSize =
     ChunkPos (pos_x voxelPos sdiv chunkSize) (pos_y voxelPos sdiv chunkSize)
              (pos_z voxelPos sdiv chunkSize)"

definition toVoxelPos :: "ChunkPos \<Rightarrow> int \<Rightarrow> VoxelPos" where
  "toVoxelPos c chunkSize =
     VoxelPos (chunk_x c * chunkSize) (chunk_y c * chunkSize) (chunk_z c * chunkSize)"

section \<open>WorldChunk\<close>

definition CHUNK_SIZE :: int where "CHUNK_SIZE = 64"
definition CHUNK_VOLUME :: int where "CHUNK_VOLUME = CHUNK_SIZE * CHUNK_SIZE * CHUNK_SIZE"

datatype State = UNLOADED | LOADING | ACTIVE | DIRTY_MESH | DIRTY_PHYSICS | DIRTY_STRUCTURE

text \<open>The enumerators' values, which \<^verbatim>\<open><\<close> and \<^verbatim>\<open>>=\<close> on \<^verbatim>\<open>State\<close> compare.\<close>

fun State_value :: "State \<Rightarrow> nat" where
  "State_value UNLOADED = 0"
| "State_value LOADING = 1"
| "State_value ACTIVE = 2"
| "State_value DIRTY_MESH = 3"
| "State_value DIRTY_PHYSICS = 4"
| "State_value DIRTY_STRUCTURE = 5"

text \<open>
  The hybrid storage: \<^verbatim>\<open>denseStorage\<close> is a \<^verbatim>\<open>unique_ptr\<close> to an array of
  \<^verbatim>\<open>CHUNK_VOLUME\<close> voxels (a list here, of that length whenever the pointer is set),
  \<^verbatim>\<open>sparseStorage\<close> a \<^verbatim>\<open>unique_ptr\<close> to an \<^verbatim>\<open>unordered_map\<close>; \<open>None\<close> is the null pointer.
\<close>

record WorldChunk =
  position :: ChunkPos
  state :: State
  denseStorage :: "Voxel list option"
  sparseStorage :: "(VoxelPos \<rightharpoonup> Voxel) option"
  isDense :: bool

definition WorldChunk_new :: "ChunkPos \<Rightarrow> WorldChunk" where
  "WorldChunk_new p =
     \<lparr>position = p, state = UNLOADED, denseStorage = None,
      sparseStorage = Some Map.empty, isDense = False\<rparr>"

definition getIndex :: "VoxelPos \<Rightarrow> int" where
  "getIndex localPos =
     pos_x localPos + pos_y localPos * CHUNK_SIZE + pos_z localPos * CHUNK_SIZE * CHUNK_SIZE"

definition isValidLocalPos :: "VoxelPos \<Rightarrow> bool" where
  "isValidLocalPos localPos =
     (pos_x localPos \<ge> 0 \<and> pos_x localPos < CHUNK_SIZE \<and>
      pos_y localPos \<ge> 0 \<and> pos_y localPos < CHUNK_SIZE \<and>
      pos_z localPos \<ge> 0 \<and> pos_z localPos < CHUNK_SIZE)"

definition airVoxel :: Voxel where
  "airVoxel = Voxel_mk AIR 0"

definition chunk_getVoxel :: "VoxelPos \<Rightarrow> WorldChunk \<Rightarrow> Voxel" where
  "chunk_getVoxel localPos c =
     (if \<not> isValidLocalPos localPos then airVoxel
      else if isDense c \<and> denseStorage c \<noteq> None then
        the (denseStorage c) ! nat (getIndex localPos)
      else (case sparseStorage c of
              Some m \<Rightarrow> (case m localPos of Some v \<Rightarrow> v | None \<Rightarrow> airVoxel)
            | None \<Rightarrow> airVoxel))"

definition chunk_setVoxel :: "VoxelPos \<Rightarrow> Voxel \<Rightarrow> WorldChunk \<Rightarrow> WorldChunk" where
  "chunk_setVoxel localPos voxel c =
     (if \<not> isValidLocalPos localPos then c
      else
        let c1 =
          (if isDense c \<and> denseStorage c \<noteq> None then
             c\<lparr>denseStorage := Some ((the (denseStorage c))[nat (getIndex localPos) := voxel])\<rparr>
           else (case sparseStorage c of
                   Some m \<Rightarrow>
                     if materialID voxel = AIR
                     then c\<lparr>sparseStorage := Some (m(localPos := None))\<rparr>
                     else c\<lparr>sparseStorage := Some (m(localPos \<mapsto> voxel))\<rparr>
                 | None \<Rightarrow> c))
        in if state c1 = ACTIVE then c1\<lparr>state := DIRTY_MESH\<rparr> else c1)"

definition chunk_hasVoxel :: "VoxelPos \<Rightarrow> WorldChunk \<Rightarrow> bool" where
  "chunk_hasVoxel localPos c = (materialID (chunk_getVoxel localPos c) \<noteq> AIR)"

definition isDirty :: "WorldChunk \<Rightarrow> bool" where
  "isDirty c = (State_value (state c) \<ge> State_value DIRTY_MESH)"

definition needsMeshUpdate :: "WorldChunk \<Rightarrow> bool" where
  "needsMeshUpdate c = (state c = DIRTY_MESH \<or> state c = DIRTY_PHYSICS)"

definition needsPhysicsUpdate :: "WorldChunk \<Rightarrow> bool" where
  "needsPhysicsUpdate c = (state c = DIRTY_PHYSICS \<or> state c = DIRTY_STRUCTURE)"

definition needsStructuralAnalysis :: "WorldChunk \<Rightarrow> bool" where
  "needsStructuralAnalysis c = (state c = DIRTY_STRUCTURE)"

text \<open>The three nested loops \<^verbatim>\<open>for x, for y, for z\<close> over \<^verbatim>\<open>0 .. CHUNK_SIZE - 1\<close>.\<close>

definition chunk_loop :: "(int \<Rightarrow> int \<Rightarrow> int \<Rightarrow> 's \<Rightarrow> 's) \<Rightarrow> 's \<Rightarrow> 's" where
  "chunk_loop body s =
     fold (\<lambda>x. fold (\<lambda>y. fold (\<lambda>z. body x y z) [0..CHUNK_SIZE - 1]) [0..CHUNK_SIZE - 1])
          [0..CHUNK_SIZE - 1] s"

text \<open>
  \<^verbatim>\<open>compress\<close> copies the non-Air slots of the dense array into a new map; \<^verbatim>\<open>decompress\<close>
  fills a new array with \<^verbatim>\<open>Voxel(AIR, 0)\<close> and copies the map's entries at valid positions
  into it. The source visits the entries of the \<^verbatim>\<open>unordered_map\<close> in its own order; distinct
  valid positions have distinct slots, so the model visits them in position order.
\<close>

definition compress :: "WorldChunk \<Rightarrow> WorldChunk" where
  "compress c =
     (if \<not> isDense c \<or> denseStorage c = None then c
      else
        let newSparseStorage =
              chunk_loop
                (\<lambda>x y z m.
                   let localPos = VoxelPos x y z;
                       voxel = the (denseStorage c) ! nat (getIndex localPos)
                   in if materialID voxel \<noteq> AIR then m(localPos \<mapsto> voxel) else m)
                Map.empty
        in c\<lparr>denseStorage := None, sparseStorage := Some newSparseStorage, isDense := False\<rparr>)"

definition decompress :: "WorldChunk \<Rightarrow> WorldChunk" where
  "decompress c =
     (if isDense c \<or> sparseStorage c = None then c
      else
        let newDenseStorage =
              chunk_loop
                (\<lambda>x y z dense.
                   case the (sparseStorage c) (VoxelPos x y z) of
                     Some voxel \<Rightarrow> dense[nat (getIndex (VoxelPos x y z)) := voxel]
                   | None \<Rightarrow> dense)
                (replicate (nat CHUNK_VOLUME) (Voxel_mk AIR 0))
        in c\<lparr>sparseStorage := None, denseStorage := Some newDenseStorage, isDense := True\<rparr>)"

section \<open>Sparse voxel octree (VoxelWorldManager.h and its implementation)\<close>

text \<open>
  \<^verbatim>\<open>struct SVONode\<close>. The node owns its children through \<^verbatim>\<open>unique_ptr\<close>, so the octree is
  a tree and is modelled as one: \<open>children\<close> is the optional array of eight optional
  child nodes (\<open>None\<close> is a null pointer).
\<close>

datatype SVONode =
  SVONode (childMask: "32 word") (nodeMaterialID: "8 word") (level: "8 word")
          (isLeaf: bool) (isUniform: bool) (children: "SVONode option list option")

definition CHILDREN_COUNT :: nat where "CHILDREN_COUNT = 8"

definition SVONode_new :: "8 word \<Rightarrow> SVONode" where
  "SVONode_new lvl = SVONode 0 0 lvl True True None"

fun set_childMask :: "32 word \<Rightarrow> SVONode \<Rightarrow> SVONode" where
  "set_childMask cm' (SVONode cm mat lv lf un ch) = SVONode cm' mat lv lf un ch"

fun set_nodeMaterialID :: "8 word \<Rightarrow> SVONode \<Rightarrow> SVONode" where
  "set_nodeMaterialID mat' (SVONode cm mat lv lf un ch) = SVONode cm mat' lv lf un ch"

fun set_isLeaf :: "bool \<Rightarrow> SVONode \<Rightarrow> SVONode" where
  "set_isLeaf lf' (SVONode cm mat lv lf un ch) = SVONode cm mat lv lf' un ch"

fun set_isUniform :: "bool \<Rightarrow> SVONode \<Rightarrow> SVONode" where
  "set_isUniform un' (SVONode cm mat lv lf un ch) = SVONode cm mat lv lf un' ch"

fun set_children :: "SVONode option list option \<Rightarrow> SVONode \<Rightarrow> SVONode" where
  "set_children ch' (SVONode cm mat lv lf un ch) = SVONode cm mat lv lf un ch'"

definition hasChild :: "SVONode \<Rightarrow> nat \<Rightarrow> bool" where
  "hasChild n index = ((childMask n AND push_bit index 1) \<noteq> 0)"

definition setChild :: "nat \<Rightarrow> SVONode \<Rightarrow> SVONode" where
  "setChild index n = set_childMask (childMask n OR push_bit index 1) n"

definition clearChild :: "nat \<Rightarrow> SVONode \<Rightarrow> SVONode" where
  "clearChild index n = set_childMask (childMask n AND NOT (push_bit index 1)) n"

definition getChild :: "SVONode \<Rightarrow> nat \<Rightarrow> SVONode option" where
  "getChild n index =
     (if \<not> hasChild n index \<or> children n = None then None
      else the (children n) ! index)"

text \<open>\<^verbatim>\<open>createChild\<close> allocates the array when it is missing; the new node's level is
  \<^verbatim>\<open>level - 1\<close> in \<^verbatim>\<open>uint8_t\<close>.\<close>

definition createChild :: "nat \<Rightarrow> SVONode \<Rightarrow> SVONode" where
  "createChild index n =
     (let cs = (case children n of None \<Rightarrow> replicate CHILDREN_COUNT None | Some cs \<Rightarrow> cs)
      in setChild index (set_children (Some (cs[index := Some (SVONode_new (level n - 1))])) n))"

text \<open>Writes a (possibly modified) child back into slot \<open>index\<close> of the array.\<close>

definition putChild :: "nat \<Rightarrow> SVONode \<Rightarrow> SVONode \<Rightarrow> SVONode" where
  "putChild index c n =
     (case children n of None \<Rightarrow> n
      | Some cs \<Rightarrow> set_children (Some (cs[index := Some c])) n)"

record SparseVoxelOctree =
  root :: "SVONode option"
  maxDepth :: nat
  worldSize :: int

text \<open>
  \<^verbatim>\<open>1 << k\<close> on \<^verbatim>\<open>int32_t\<close>: the 32-bit shift read as two's complement. It is \<open>2 ^ k\<close> up to
  \<open>k = 30\<close>; at 31 it is the most negative value and from 32 on it is 0 (the C++ shift is
  undefined there).
\<close>

definition shl1_int32 :: "nat \<Rightarrow> int" where
  "shl1_int32 k = sint (push_bit k (1 :: 32 word))"

text \<open>The constructor: \<^verbatim>\<open>worldSize = 1 << maxDepth\<close>, and the root is a fresh node of level
  \<^verbatim>\<open>maxDepth\<close>.\<close>

definition SparseVoxelOctree_new :: "nat \<Rightarrow> SparseVoxelOctree" where
  "SparseVoxelOctree_new d =
     \<lparr>root = Some (SVONode_new (of_nat d)), maxDepth = d, worldSize = shl1_int32 d\<rparr>"

definition getNodeSize :: "nat \<Rightarrow> int" where
  "getNodeSize lvl = shl1_int32 lvl"

definition getChildIndex :: "VoxelPos \<Rightarrow> nat \<Rightarrow> nat" where
  "getChildIndex pos lvl =
     (let nodeSize = getNodeSize (lvl - 1);
          index0 = (0::nat);
          index1 = (if pos_x pos \<ge> nodeSize then index0 OR 1 else index0);
          index2 = (if pos_y pos \<ge> nodeSize then index1 OR 2 else index1);
          index3 = (if pos_z pos \<ge> nodeSize then index2 OR 4 else index2)
      in index3)"

text \<open>
  \<^verbatim>\<open>findNode(pos, createPath)\<close>: the loop over \<^verbatim>\<open>level = maxDepth, ..., 1\<close>. The source
  returns a pointer into the tree, which the caller may write through. The model takes the
  caller's write \<open>f\<close> and returns the tree after the loop's own mutations with \<open>f\<close> applied
  at the node found, together with the node found (\<open>None\<close> for \<^verbatim>\<open>nullptr\<close>, in which case
  nothing is written but the leaves converted on the way stay converted).
\<close>

fun findNode_loop ::
  "nat \<Rightarrow> VoxelPos \<Rightarrow> bool \<Rightarrow> (SVONode \<Rightarrow> SVONode) \<Rightarrow> SVONode \<Rightarrow> SVONode \<times> SVONode option" where
  "findNode_loop 0 pos createPath f current = (f current, Some current)"
| "findNode_loop (Suc l) pos createPath f current =
     (if isLeaf current \<and> \<not> (createPath \<and> Suc l > 1) then (f current, Some current)
      else
        let current1 =
              (if isLeaf current
               then set_children (Some (replicate CHILDREN_COUNT None)) (set_isLeaf False current)
               else current);
            childIndex = getChildIndex pos (Suc l)
        in if \<not> hasChild current1 childIndex \<and> \<not> createPath then (current1, None)
           else
             let current2 =
                   (if \<not> hasChild current1 childIndex then createChild childIndex current1
                    else current1)
             in (case getChild current2 childIndex of
                   None \<Rightarrow> (current2, None)
                 | Some child \<Rightarrow>
                     (case findNode_loop l pos createPath f child of
                        (child', found) \<Rightarrow> (putChild childIndex child' current2, found))))"

definition findNode :: "VoxelPos \<Rightarrow> SparseVoxelOctree \<Rightarrow> SVONode option" where
  "findNode pos svo =
     (case root svo of None \<Rightarrow> None
      | Some r \<Rightarrow> snd (findNode_loop (maxDepth svo) pos False id r))"

definition svo_getVoxel :: "VoxelPos \<Rightarrow> SparseVoxelOctree \<Rightarrow> Voxel" where
  "svo_getVoxel pos svo =
     (case findNode pos svo of
        None \<Rightarrow> Voxel_mk AIR 0
      | Some node \<Rightarrow>
          if isLeaf node \<and> isUniform node then Voxel_mk (nodeMaterialID node) 255
          else Voxel_mk AIR 0)"

text \<open>The write \<^verbatim>\<open>setVoxel\<close> performs through the pointer \<^verbatim>\<open>findNode(pos, true)\<close> returns.\<close>

definition writeLeaf :: "Voxel \<Rightarrow> SVONode \<Rightarrow> SVONode" where
  "writeLeaf voxel node =
     (if isLeaf node then set_isUniform True (set_nodeMaterialID (materialID voxel) node)
      else node)"

definition svo_setVoxel :: "VoxelPos \<Rightarrow> Voxel \<Rightarrow> SparseVoxelOctree \<Rightarrow> SparseVoxelOctree" where
  "svo_setVoxel pos voxel svo =
     (if pos_x pos < 0 \<or> pos_x pos \<ge> worldSize svo \<or>
         pos_y pos < 0 \<or> pos_y pos \<ge> worldSize svo \<or>
         pos_z pos < 0 \<or> pos_z pos \<ge> worldSize svo then svo
      else (case root svo of None \<Rightarrow> svo
            | Some r \<Rightarrow>
                svo\<lparr>root := Some (fst (findNode_loop (maxDepth svo) pos True (writeLeaf voxel) r))\<rparr>))"

definition svo_hasVoxel :: "VoxelPos \<Rightarrow> SparseVoxelOctree \<Rightarrow> bool" where
  "svo_hasVoxel pos svo = (materialID (svo_getVoxel pos svo) \<noteq> AIR)"

definition loadChunkData :: "ChunkPos \<Rightarrow> SparseVoxelOctree \<Rightarrow> WorldChunk \<Rightarrow> WorldChunk" where
  "loadChunkData chunkPos svo chunk =
     (let chunkOrigin = toVoxelPos chunkPos CHUNK_SIZE
      in chunk_loop
           (\<lambda>x y z c.
              let worldPos = VoxelPos (pos_x chunkOrigin + x) (pos_y chunkOrigin + y)
                                      (pos_z chunkOrigin + z);
                  voxel = svo_getVoxel worldPos svo
              in if materialID voxel \<noteq> AIR then chunk_setVoxel (VoxelPos x y z) voxel c else c)
           chunk)"

definition storeChunkData :: "ChunkPos \<Rightarrow> WorldChunk \<Rightarrow> SparseVoxelOctree \<Rightarrow> SparseVoxelOctree" where
  "storeChunkData chunkPos chunk svo =
     (let chunkOrigin = toVoxelPos chunkPos CHUNK_SIZE
      in chunk_loop
           (\<lambda>x y z t.
              let localPos = VoxelPos x y z;
                  worldPos = VoxelPos (pos_x chunkOrigin + x) (pos_y chunkOrigin + y)
                                      (pos_z chunkOrigin + z);
                  voxel = chunk_getVoxel localPos chunk
              in svo_setVoxel worldPos voxel t)
           svo)"

subsection \<open>Merging uniform children\<close>

text \<open>\<^verbatim>\<open>canMergeNode\<close>: the loop over the child slots, with its early returns.\<close>

fun canMerge_loop :: "nat list \<Rightarrow> SVONode \<Rightarrow> 8 word \<Rightarrow> bool \<Rightarrow> bool" where
  "canMerge_loop [] node firstMaterial firstSet = firstSet"
| "canMerge_loop (i # rest) node firstMaterial firstSet =
     (if hasChild node i then
        (case getChild node i of
           None \<Rightarrow> False
         | Some child \<Rightarrow>
             if \<not> isLeaf child \<or> \<not> isUniform child then False
             else if \<not> firstSet then canMerge_loop rest node (nodeMaterialID child) True
             else if nodeMaterialID child \<noteq> firstMaterial then False
             else canMerge_loop rest node firstMaterial firstSet)
      else canMerge_loop rest node firstMaterial firstSet)"

definition canMergeNode :: "SVONode \<Rightarrow> bool" where
  "canMergeNode node =
     (if isLeaf node \<or> children node = None then False
      else canMerge_loop [0..<CHILDREN_COUNT] node 255 False)"

text \<open>The material of the first present, non-null child (\<^verbatim>\<open>AIR\<close> when there is none).\<close>

fun firstChildMaterial :: "nat list \<Rightarrow> SVONode \<Rightarrow> 8 word" where
  "firstChildMaterial [] node = AIR"
| "firstChildMaterial (i # rest) node =
     (if hasChild node i then
        (case getChild node i of
           Some child \<Rightarrow> nodeMaterialID child
         | None \<Rightarrow> firstChildMaterial rest node)
      else firstChildMaterial rest node)"

text \<open>
  \<^verbatim>\<open>mergeUniformChildren\<close>: children first (\<^verbatim>\<open>hasChild(i)\<close> and a non-null pointer), then
  the node itself. Slot \<open>i\<close> of the array is paired with its index.
\<close>

function mergeUniformChildren :: "SVONode \<Rightarrow> SVONode" where
  "mergeUniformChildren (SVONode cm mat lv lf un ch) =
     (if lf then SVONode cm mat lv lf un ch
      else
        let node1 =
              (case ch of
                 None \<Rightarrow> SVONode cm mat lv lf un ch
               | Some cs \<Rightarrow>
                   SVONode cm mat lv lf un
                     (Some (map (\<lambda>(i, c). if hasChild (SVONode cm mat lv lf un ch) i
                                            then map_option mergeUniformChildren c else c)
                                (zip [0..<length cs] cs))))
        in if canMergeNode node1
           then set_nodeMaterialID (firstChildMaterial [0..<CHILDREN_COUNT] node1)
                  (set_isUniform True (set_isLeaf True (set_childMask 0 (set_children None node1))))
           else node1)"
  by pat_completeness auto

termination mergeUniformChildren
proof (relation "measure size")
  show "wf (measure (size :: SVONode \<Rightarrow> nat))" by simp
next
  fix cm :: "32 word" and mat lv :: "8 word" and lf un :: bool
    and ch :: "SVONode option list option" and cs p i c c'
  assume a: "ch = Some cs" "p \<in> set (zip [0..<length cs] cs)" "(i, c) = p" "c = Some c'"
  have mem: "Some d \<in> set ds \<Longrightarrow> size d < Suc (size_list (size_option size) ds)"
    for d :: SVONode and ds
    by (induction ds) auto
  from a have "Some c' \<in> set cs"
    by (auto simp: set_zip)
  from mem [OF this] a show "(c', SVONode cm mat lv lf un ch) \<in> measure size"
    by simp
qed

text \<open>\<^verbatim>\<open>compress\<close>, \<^verbatim>\<open>optimize\<close> and the node count the class reports.\<close>

definition svo_compress :: "SparseVoxelOctree \<Rightarrow> SparseVoxelOctree" where
  "svo_compress svo =
     (case root svo of None \<Rightarrow> svo
      | Some r \<Rightarrow> svo\<lparr>root := Some (mergeUniformChildren r)\<rparr>)"

definition optimize :: "SparseVoxelOctree \<Rightarrow> SparseVoxelOctree" where
  "optimize svo = svo_compress svo"

definition getNodeCount :: "SparseVoxelOctree \<Rightarrow> nat" where
  "getNodeCount svo = 1000"

section \<open>VoxelWorldManager\<close>

datatype Priority = LOW | NORMAL | HIGH | URGENT

text \<open>
  A \<^verbatim>\<open>shared_ptr<WorldChunk>\<close> is a handle into a store of chunks: the active table and a
  queued task hold the same handle, so a worker's load is seen through the table.
\<close>

type_synonym chunk_handle = nat

record ChunkLoadTask =
  task_position :: ChunkPos
  task_chunk :: chunk_handle
  priority :: Priority

text \<open>
  The manager's state: the octree, the chunk store with its next free handle, the active
  table and the loading queue (a \<^verbatim>\<open>std::queue\<close>: \<^verbatim>\<open>push\<close> appends, \<^verbatim>\<open>front\<close>/\<^verbatim>\<open>pop\<close> take
  the head), and the two counters the operations below touch. Every operation holds
  \<^verbatim>\<open>queueMutex\<close> around its accesses to the table and the queue, so each is one step here;
  a worker's turn is \<open>chunkLoadingWorker_step\<close>.
\<close>

record VoxelWorldManager =
  svoStorage :: "SparseVoxelOctree option"
  chunkStore :: "chunk_handle \<rightharpoonup> WorldChunk"
  nextHandle :: chunk_handle
  activeChunks :: "ChunkPos \<rightharpoonup> chunk_handle"
  loadingQueue :: "ChunkLoadTask list"
  stats_pendingLoads :: int
  stats_activeChunks :: int

definition VoxelWorldManager_new :: VoxelWorldManager where
  "VoxelWorldManager_new =
     \<lparr>svoStorage = Some (SparseVoxelOctree_new 20), chunkStore = Map.empty, nextHandle = 0,
      activeChunks = Map.empty, loadingQueue = [], stats_pendingLoads = 0,
      stats_activeChunks = 0\<rparr>"

definition getChunk :: "ChunkPos \<Rightarrow> VoxelWorldManager \<Rightarrow> chunk_handle option" where
  "getChunk pos m = activeChunks m pos"

text \<open>Reading and writing the chunk a handle points to.\<close>

definition chunkAt :: "chunk_handle \<Rightarrow> VoxelWorldManager \<Rightarrow> WorldChunk option" where
  "chunkAt h m = chunkStore m h"

definition updateChunk ::
  "chunk_handle \<Rightarrow> (WorldChunk \<Rightarrow> WorldChunk) \<Rightarrow> VoxelWorldManager \<Rightarrow> VoxelWorldManager" where
  "updateChunk h f m =
     (case chunkStore m h of None \<Rightarrow> m
      | Some c \<Rightarrow> m\<lparr>chunkStore := (chunkStore m)(h \<mapsto> f c)\<rparr>)"

definition createChunk :: "ChunkPos \<Rightarrow> VoxelWorldManager \<Rightarrow> chunk_handle \<times> VoxelWorldManager" where
  "createChunk pos m =
     (nextHandle m,
      m\<lparr>chunkStore := (chunkStore m)(nextHandle m \<mapsto> WorldChunk_new pos),
        nextHandle := Suc (nextHandle m)\<rparr>)"

definition loadChunk :: "ChunkPos \<Rightarrow> Priority \<Rightarrow> VoxelWorldManager \<Rightarrow> VoxelWorldManager" where
  "loadChunk pos prio m =
     (if activeChunks m pos \<noteq> None then m
      else (case createChunk pos m of
              (chunk, m1) \<Rightarrow>
                m1\<lparr>activeChunks := (activeChunks m1)(pos \<mapsto> chunk),
                   loadingQueue := loadingQueue m1 @
                     [\<lparr>task_position = pos, task_chunk = chunk, priority = prio\<rparr>],
                   stats_pendingLoads := stats_pendingLoads m1 + 1\<rparr>))"

definition loadChunkFromSVO :: "ChunkPos \<Rightarrow> chunk_handle \<Rightarrow> VoxelWorldManager \<Rightarrow> VoxelWorldManager" where
  "loadChunkFromSVO pos h m =
     (case svoStorage m of None \<Rightarrow> m
      | Some svo \<Rightarrow> updateChunk h (loadChunkData pos svo) m)"

definition storeChunkToSVO :: "ChunkPos \<Rightarrow> WorldChunk \<Rightarrow> VoxelWorldManager \<Rightarrow> VoxelWorldManager" where
  "storeChunkToSVO pos chunk m =
     (case svoStorage m of None \<Rightarrow> m
      | Some svo \<Rightarrow> m\<lparr>svoStorage := Some (storeChunkData pos chunk svo)\<rparr>)"

definition unloadChunk :: "ChunkPos \<Rightarrow> VoxelWorldManager \<Rightarrow> VoxelWorldManager" where
  "unloadChunk pos m =
     (case activeChunks m pos of None \<Rightarrow> m
      | Some h \<Rightarrow>
          (case chunkStore m h of None \<Rightarrow> m
           | Some c \<Rightarrow>
               let m1 = storeChunkToSVO pos c m
               in m1\<lparr>activeChunks := (activeChunks m1)(pos := None),
                     stats_activeChunks := stats_activeChunks m1 - 1\<rparr>))"

definition markChunkDirty :: "ChunkPos \<Rightarrow> State \<Rightarrow> VoxelWorldManager \<Rightarrow> VoxelWorldManager" where
  "markChunkDirty pos dirtyType m =
     (case getChunk pos m of None \<Rightarrow> m
      | Some h \<Rightarrow>
          updateChunk h
            (\<lambda>c. if State_value (state c) < State_value dirtyType then c\<lparr>state := dirtyType\<rparr>
                  else c) m)"

definition clearDirtyFlag :: "ChunkPos \<Rightarrow> VoxelWorldManager \<Rightarrow> VoxelWorldManager" where
  "clearDirtyFlag pos m =
     (case getChunk pos m of None \<Rightarrow> m
      | Some h \<Rightarrow> updateChunk h (\<lambda>c. c\<lparr>state := ACTIVE\<rparr>) m)"

text \<open>The local position of a world position: \<^verbatim>\<open>pos % CHUNK_SIZE\<close> on each axis.\<close>

definition localPosOf :: "VoxelPos \<Rightarrow> VoxelPos" where
  "localPosOf pos =
     VoxelPos (pos_x pos smod CHUNK_SIZE) (pos_y pos smod CHUNK_SIZE) (pos_z pos smod CHUNK_SIZE)"

definition manager_getVoxel :: "VoxelPos \<Rightarrow> VoxelWorldManager \<Rightarrow> Voxel" where
  "manager_getVoxel pos m =
     (let chunkPos = ChunkPos_of pos CHUNK_SIZE
      in case getChunk chunkPos m of
           None \<Rightarrow> Voxel_mk AIR 0
         | Some h \<Rightarrow>
             (case chunkAt h m of None \<Rightarrow> Voxel_mk AIR 0
              | Some c \<Rightarrow> chunk_getVoxel (localPosOf pos) c))"

definition manager_setVoxel :: "VoxelPos \<Rightarrow> Voxel \<Rightarrow> VoxelWorldManager \<Rightarrow> VoxelWorldManager" where
  "manager_setVoxel pos voxel m =
     (let chunkPos = ChunkPos_of pos CHUNK_SIZE;
          m1 = (if getChunk chunkPos m = None then loadChunk chunkPos URGENT m else m)
      in case getChunk chunkPos m1 of
           None \<Rightarrow> m1
         | Some h \<Rightarrow>
             markChunkDirty chunkPos DIRTY_MESH
               (updateChunk h (chunk_setVoxel (localPosOf pos) voxel) m1))"

text \<open>
  One turn of \<^verbatim>\<open>chunkLoadingWorker\<close> with a task waiting: take the front task, load its
  chunk from the octree, mark the chunk \<^verbatim>\<open>ACTIVE\<close>. With an empty queue the worker waits.
\<close>

definition chunkLoadingWorker_step :: "VoxelWorldManager \<Rightarrow> VoxelWorldManager" where
  "chunkLoadingWorker_step m =
     (case loadingQueue m of
        [] \<Rightarrow> m
      | task # rest \<Rightarrow>
          let m1 = m\<lparr>loadingQueue := rest, stats_pendingLoads := stats_pendingLoads m - 1\<rparr>;
              m2 = loadChunkFromSVO (task_position task) (task_chunk task) m1
          in updateChunk (task_chunk task) (\<lambda>c. c\<lparr>state := ACTIVE\<rparr>) m2)"

subsection \<open>Auxiliary definitions for the statements below\<close>

text \<open>\<open>n\<close> successive calls of \<^verbatim>\<open>addMaterial\<close> with the same material.\<close>

definition fillPalette :: "nat \<Rightarrow> Material \<Rightarrow> MaterialPalette \<Rightarrow> MaterialPalette" where
  "fillPalette n m p = ((\<lambda>q. snd (addMaterial m q)) ^^ n) p"

text \<open>
  The representation a chunk currently uses, as \<^verbatim>\<open>getVoxel\<close> and \<^verbatim>\<open>setVoxel\<close> select it
  (\<^verbatim>\<open>isDense && denseStorage\<close>, else \<^verbatim>\<open>sparseStorage\<close>), and the invariant of the class:
  the dense array has \<^verbatim>\<open>CHUNK_VOLUME\<close> slots, and a chunk that is not dense has its map.
\<close>

definition storesDense :: "WorldChunk \<Rightarrow> bool" where
  "storesDense c = (isDense c \<and> denseStorage c \<noteq> None)"

definition chunk_invariant :: "WorldChunk \<Rightarrow> bool" where
  "chunk_invariant c =
     (if storesDense c then length (the (denseStorage c)) = nat CHUNK_VOLUME
      else sparseStorage c \<noteq> None)"

text \<open>The dense chunk with Air in every slot: \<^verbatim>\<open>decompress\<close> of a freshly constructed chunk.\<close>

definition denseAirChunk :: "ChunkPos \<Rightarrow> WorldChunk" where
  "denseAirChunk p =
     \<lparr>position = p, state = UNLOADED,
      denseStorage = Some (replicate (nat CHUNK_VOLUME) (Voxel_mk AIR 0)),
      sparseStorage = None, isDense = True\<rparr>"

subsection \<open>Invariants of the octree used in the proofs\<close>

text \<open>
  The child indices \<^verbatim>\<open>findNode\<close> computes for two positions agree on every level from \<open>l\<close>
  down to 2, so both positions lead to the same node of level 1.
\<close>

fun samePath :: "nat \<Rightarrow> VoxelPos \<Rightarrow> VoxelPos \<Rightarrow> bool" where
  "samePath 0 q p = True"
| "samePath (Suc 0) q p = True"
| "samePath (Suc (Suc l)) q p =
     (getChildIndex q (Suc (Suc l)) = getChildIndex p (Suc (Suc l)) \<and> samePath (Suc l) q p)"

text \<open>
  Well-formedness of the subtree that the loop reaches with \<open>l\<close> iterations left: a leaf has
  an empty child mask; an inner node sits above level 1, has its array, and every child its
  mask announces is there and well-formed.
\<close>

fun svo_wf :: "nat \<Rightarrow> SVONode \<Rightarrow> bool" where
  "svo_wf 0 n = (isLeaf n \<and> childMask n = 0)"
| "svo_wf (Suc l) n =
     (if isLeaf n then childMask n = 0
      else l \<ge> 1 \<and>
        (\<exists>cs. children n = Some cs \<and> length cs = CHILDREN_COUNT \<and>
          (\<forall>i < CHILDREN_COUNT. hasChild n i \<longrightarrow> (\<exists>c. cs ! i = Some c \<and> svo_wf l c))))"

text \<open>The path of \<open>p\<close> exists down to a uniform leaf of level 1 that holds material \<open>m\<close>.\<close>

fun svo_holds :: "nat \<Rightarrow> VoxelPos \<Rightarrow> 8 word \<Rightarrow> SVONode \<Rightarrow> bool" where
  "svo_holds 0 p m n = False"
| "svo_holds (Suc 0) p m n = (isLeaf n \<and> isUniform n \<and> nodeMaterialID n = m)"
| "svo_holds (Suc (Suc l)) p m n =
     (\<not> isLeaf n \<and> hasChild n (getChildIndex p (Suc (Suc l))) \<and>
      (\<exists>cs c. children n = Some cs \<and> length cs = CHILDREN_COUNT \<and>
         cs ! getChildIndex p (Suc (Suc l)) = Some c \<and> svo_holds (Suc l) p m c))"

definition svo_inv :: "SparseVoxelOctree \<Rightarrow> bool" where
  "svo_inv t = (case root t of Some r \<Rightarrow> svo_wf (maxDepth t) r | None \<Rightarrow> False)"

definition svo_reads :: "VoxelPos \<Rightarrow> 8 word \<Rightarrow> SparseVoxelOctree \<Rightarrow> bool" where
  "svo_reads p m t = (case root t of Some r \<Rightarrow> svo_holds (maxDepth t) p m r | None \<Rightarrow> False)"

subsection \<open>The eviction scenario\<close>

text \<open>
  \<^verbatim>\<open>setVoxel({5,5,5}, Voxel(STONE,255))\<close> on a fresh manager, \<^verbatim>\<open>unloadChunk\<close> and
  \<^verbatim>\<open>loadChunk\<close> of chunk \<open>(0,0,0)\<close>, with the workers' turns in two schedules: the first load
  completes before the unload, or both queued loads run after the second \<^verbatim>\<open>loadChunk\<close>.
\<close>

text \<open>The chunk \<open>(0,0,0)\<close> holding one stone voxel at \<open>(5,5,5)\<close>, in state \<open>s\<close>.\<close>

definition stoneChunk :: "State \<Rightarrow> WorldChunk" where
  "stoneChunk s =
     \<lparr>position = ChunkPos 0 0 0, state = s, denseStorage = None,
      sparseStorage = Some [VoxelPos 5 5 5 \<mapsto> Voxel_mk STONE 255], isDense = False\<rparr>"

definition written_state :: VoxelWorldManager where
  "written_state = manager_setVoxel (VoxelPos 5 5 5) (Voxel_mk STONE 255) VoxelWorldManager_new"

definition eviction_scenario :: VoxelWorldManager where
  "eviction_scenario =
     chunkLoadingWorker_step
       (loadChunk (ChunkPos 0 0 0) NORMAL
         (unloadChunk (ChunkPos 0 0 0)
           (chunkLoadingWorker_step written_state)))"

definition eviction_scenario_late :: VoxelWorldManager where
  "eviction_scenario_late =
     chunkLoadingWorker_step
       (chunkLoadingWorker_step
         (loadChunk (ChunkPos 0 0 0) NORMAL
           (unloadChunk (ChunkPos 0 0 0) written_state)))"

subsection \<open>An octree whose root has eight uniform children\<close>

text \<open>
  An octree of depth 2 after \<^verbatim>\<open>setVoxel(p, Voxel(STONE,255))\<close> at one position of each octant:
  the root is an inner node with eight uniform stone leaves.
\<close>

definition octant_corners :: "VoxelPos list" where
  "octant_corners =
     [VoxelPos 0 0 0, VoxelPos 2 0 0, VoxelPos 0 2 0, VoxelPos 2 2 0,
      VoxelPos 0 0 2, VoxelPos 2 0 2, VoxelPos 0 2 2, VoxelPos 2 2 2]"

definition octants_svo :: SparseVoxelOctree where
  "octants_svo =
     fold (\<lambda>p. svo_setVoxel p (Voxel_mk STONE 255)) octant_corners (SparseVoxelOctree_new 2)"

subsection \<open>Node count and regions of the octree\<close>

text \<open>
  The number of nodes a tree holds: the node itself and every node it owns through its child
  array. This is the count a recursive traversal gives; \<^verbatim>\<open>getNodeCount\<close> itself is the
  placeholder above.
\<close>

function countNodes :: "SVONode \<Rightarrow> nat" where
  "countNodes (SVONode cm mat lv lf un ch) =
     Suc (case ch of
            None \<Rightarrow> 0
          | Some cs \<Rightarrow> sum_list (map (\<lambda>c. case c of None \<Rightarrow> 0 | Some c' \<Rightarrow> countNodes c') cs))"
  by pat_completeness auto
termination
proof (relation "measure size")
  show "wf (measure (size :: SVONode \<Rightarrow> nat))" by simp
next
  fix cm :: "32 word" and mat lv :: "8 word" and lf un :: bool
    and ch :: "SVONode option list option" and cs c c'
  assume a: "ch = Some cs" "c \<in> set cs" "c = Some c'"
  have mem: "Some d \<in> set ds \<Longrightarrow> size d < Suc (size_list (size_option size) ds)"
    for d :: SVONode and ds
    by (induction ds) auto
  from a have "Some c' \<in> set cs" by simp
  from mem [OF this] a show "(c', SVONode cm mat lv lf un ch) \<in> measure size"
    by simp
qed

definition svo_countNodes :: "SparseVoxelOctree \<Rightarrow> nat" where
  "svo_countNodes svo = (case root svo of None \<Rightarrow> 0 | Some r \<Rightarrow> countNodes r)"

text \<open>An inner node whose 8 children are all present and are uniform leaves of material \<open>M\<close>.\<close>

definition uniformChildren :: "8 word \<Rightarrow> SVONode \<Rightarrow> bool" where
  "uniformChildren M n =
     (\<not> isLeaf n \<and>
      (case children n of
         None \<Rightarrow> False
       | Some cs \<Rightarrow>
           length cs = CHILDREN_COUNT \<and>
           list_all
             (\<lambda>i. hasChild n i \<and>
                  (case cs ! i of
                     None \<Rightarrow> False
                   | Some c \<Rightarrow> isLeaf c \<and> isUniform c \<and> nodeMaterialID c = M))
             [0..<CHILDREN_COUNT]))"

text \<open>
  Position \<open>p\<close> lies in the region of such a node: the walk of \<^verbatim>\<open>findNode\<close> for \<open>p\<close>, with
  \<open>l\<close> iterations left at \<open>n\<close>, goes through inner nodes and present children to a node whose
  8 children are uniform leaves of \<open>M\<close>.
\<close>

fun inRegion :: "nat \<Rightarrow> VoxelPos \<Rightarrow> 8 word \<Rightarrow> SVONode \<Rightarrow> bool" where
  "inRegion 0 p M n = False"
| "inRegion (Suc l) p M n =
     (uniformChildren M n \<or>
      (\<not> isLeaf n \<and> hasChild n (getChildIndex p (Suc l)) \<and>
       (case children n of
          None \<Rightarrow> False
        | Some cs \<Rightarrow>
            length cs = CHILDREN_COUNT \<and>
            (case cs ! getChildIndex p (Suc l) of
               None \<Rightarrow> False
             | Some c \<Rightarrow> inRegion l p M c))))"

definition svo_inRegion :: "VoxelPos \<Rightarrow> 8 word \<Rightarrow> SparseVoxelOctree \<Rightarrow> bool" where
  "svo_inRegion p M svo =
     (case root svo of None \<Rightarrow> False | Some r \<Rightarrow> inRegion (maxDepth svo) p M r)"

text \<open>
  An octree of depth 3 after the same eight writes: the eight uniform stone leaves hang under
  the level-2 node that is the root's child 0.
\<close>

definition octants_svo3 :: SparseVoxelOctree where
  "octants_svo3 =
     fold (\<lambda>p. svo_setVoxel p (Voxel_mk STONE 255)) octant_corners (SparseVoxelOctree_new 3)"

text \<open>
  The child array that \<^verbatim>\<open>mergeUniformChildren\<close> leaves at an inner node after its
  recursive calls: the children under a set mask bit are merged, the others are kept.
\<close>

definition mergedChildren :: "SVONode \<Rightarrow> SVONode option list \<Rightarrow> SVONode option list" where
  "mergedChildren n cs =
     map (\<lambda>(i, c). if hasChild n i then map_option mergeUniformChildren c else c)
         (zip [0..<length cs] cs)"

subsection \<open>Positions the octree accepts, and the data of the read-back examples\<close>

text \<open>The negation of the bounds test that opens \<^verbatim>\<open>SparseVoxelOctree::setVoxel\<close>.\<close>

definition inWorld :: "VoxelPos \<Rightarrow> SparseVoxelOctree \<Rightarrow> bool" where
  "inWorld q svo =
     (0 \<le> pos_x q \<and> pos_x q < worldSize svo \<and> 0 \<le> pos_y q \<and> pos_y q < worldSize svo \<and>
      0 \<le> pos_z q \<and> pos_z q < worldSize svo)"

text \<open>
  The world position of the local position \<open>(63, 63, 63)\<close> of a chunk, which is the last one
  \<^verbatim>\<open>storeChunkData\<close> writes.
\<close>

definition chunkCorner :: "ChunkPos \<Rightarrow> VoxelPos" where
  "chunkCorner cp =
     VoxelPos (pos_x (toVoxelPos cp CHUNK_SIZE) + 63) (pos_y (toVoxelPos cp CHUNK_SIZE) + 63)
              (pos_z (toVoxelPos cp CHUNK_SIZE) + 63)"

definition taggedStone :: Voxel where
  "taggedStone = \<lparr>materialID = STONE, health = 77, flags = 3, structuralSupport = 9\<rparr>"

text \<open>A fresh chunk at the origin after one write, at local position \<open>(63, 63, 63)\<close>.\<close>

definition cornerChunk :: "Voxel \<Rightarrow> WorldChunk" where
  "cornerChunk v = chunk_setVoxel (VoxelPos 63 63 63) v (WorldChunk_new (ChunkPos 0 0 0))"

section \<open>MaterialPalette: exhaustion\<close>

lemma palette_new_count: "getMaterialCount MaterialPalette_new = 13"
  by (simp add: MaterialPalette_new_def initializeStandardMaterials_def getMaterialCount_def Let_def)

lemma addMaterial_count:
  "getMaterialCount (snd (addMaterial m p)) =
     (if getMaterialCount p \<ge> 255 then getMaterialCount p else Suc (getMaterialCount p))"
  by (simp add: addMaterial_def getMaterialCount_def Let_def)

lemma palette_reachable_count: "palette_reachable p \<Longrightarrow> getMaterialCount p \<le> 255"
  by (induction rule: palette_reachable.induct) (simp_all add: palette_new_count addMaterial_count)

lemma fillPalette_reachable: "palette_reachable p \<Longrightarrow> palette_reachable (fillPalette n m p)"
  by (induction n) (simp_all add: fillPalette_def reach_add)

lemma fillPalette_count:
  "getMaterialCount p + n \<le> 255 \<Longrightarrow> getMaterialCount (fillPalette n m p) = getMaterialCount p + n"
  by (induction n) (simp_all add: fillPalette_def addMaterial_count)

text \<open>
  Claim C8. For every palette a program can hold, \<^verbatim>\<open>addMaterial\<close> fails exactly when the
  palette already holds 255 materials; the failure is the ResourceExhausted error, and the
  failed call leaves the palette as it was: the same material count and the same answer of
  \<^verbatim>\<open>getMaterial\<close> for every id.
\<close>

theorem addMaterial_fails_iff_full:
  assumes "palette_reachable p"
  shows "(isl (fst (addMaterial m p)) \<longleftrightarrow> getMaterialCount p = 255) \<and>
         (isl (fst (addMaterial m p)) \<longrightarrow>
            fst (addMaterial m p) = Inl ResourceExhausted \<and>
            snd (addMaterial m p) = p \<and>
            getMaterialCount (snd (addMaterial m p)) = getMaterialCount p \<and>
            (\<forall>i. getMaterial i (snd (addMaterial m p)) = getMaterial i p))"
  using palette_reachable_count [OF assms]
  by (auto simp: addMaterial_def getMaterialCount_def Let_def)

text \<open>The theorem at a full palette: the constructed palette after 242 additions.\<close>

theorem addMaterial_fails_iff_full_witness:
  "palette_reachable (fillPalette 242 (Material_mk ''Custom'' (1, 1, 1) 1) MaterialPalette_new) \<and>
   getMaterialCount (fillPalette 242 (Material_mk ''Custom'' (1, 1, 1) 1) MaterialPalette_new) = 255 \<and>
   fst (addMaterial (Material_mk ''Extra'' (0, 0, 0) 1)
          (fillPalette 242 (Material_mk ''Custom'' (1, 1, 1) 1) MaterialPalette_new))
     = Inl ResourceExhausted \<and>
   snd (addMaterial (Material_mk ''Extra'' (0, 0, 0) 1)
          (fillPalette 242 (Material_mk ''Custom'' (1, 1, 1) 1) MaterialPalette_new))
     = fillPalette 242 (Material_mk ''Custom'' (1, 1, 1) 1) MaterialPalette_new"
proof -
  let ?p = "fillPalette 242 (Material_mk ''Custom'' (1, 1, 1) 1) MaterialPalette_new"
  have r: "palette_reachable ?p"
    by (rule fillPalette_reachable [OF reach_new])
  have c: "getMaterialCount ?p = 255"
    by (simp add: fillPalette_count palette_new_count)
  from addMaterial_fails_iff_full [OF r, of "Material_mk ''Extra'' (0, 0, 0) 1"] r c
  show ?thesis by simp
qed

section \<open>WorldChunk: writing and reading back\<close>

lemma getIndex_bounds:
  assumes "0 \<le> pos_x pos" "pos_x pos < CHUNK_SIZE" "0 \<le> pos_y pos" "pos_y pos < CHUNK_SIZE"
    "0 \<le> pos_z pos" "pos_z pos < CHUNK_SIZE"
  shows "0 \<le> getIndex pos \<and> getIndex pos < CHUNK_VOLUME"
  using assms unfolding getIndex_def CHUNK_SIZE_def CHUNK_VOLUME_def by simp

text \<open>
  Claim C2 as stated, refuted: in a freshly constructed (sparse) chunk, writing the default
  voxel \<^verbatim>\<open>Voxel()\<close> (material Air, health 255) at \<open>(0, 0, 0)\<close> and reading it back does
  not return the voxel written: the sparse branch erases an Air voxel, and the read returns
  the Air sentinel of health 0.
\<close>

theorem chunk_set_get_counterexample:
  "chunk_getVoxel (VoxelPos 0 0 0)
     (chunk_setVoxel (VoxelPos 0 0 0) Voxel_default (WorldChunk_new (ChunkPos 0 0 0)))
   \<noteq> Voxel_default"
  by (simp add: chunk_getVoxel_def chunk_setVoxel_def WorldChunk_new_def Voxel_default_def
      isValidLocalPos_def CHUNK_SIZE_def AIR_def airVoxel_def Voxel_mk_def)

text \<open>
  Claim C2, amended. For every local position in \<open>[0, CHUNK_SIZE)\<close> on each axis and every
  voxel \<open>v\<close>, \<^verbatim>\<open>setVoxel(pos, v)\<close> followed by \<^verbatim>\<open>getVoxel(pos)\<close> returns \<open>v\<close> when the chunk
  uses its dense array, and when it uses its sparse map and \<open>v\<close> is not Air; in a sparse
  chunk an Air voxel reads back as the sentinel \<^verbatim>\<open>Voxel(AIR, 0)\<close>.
\<close>

theorem chunk_set_get_roundtrip:
  assumes "0 \<le> pos_x pos" "pos_x pos < CHUNK_SIZE" "0 \<le> pos_y pos" "pos_y pos < CHUNK_SIZE"
    "0 \<le> pos_z pos" "pos_z pos < CHUNK_SIZE"
    and inv: "chunk_invariant c"
  shows "chunk_getVoxel pos (chunk_setVoxel pos v c) =
           (if storesDense c \<or> materialID v \<noteq> AIR then v else Voxel_mk AIR 0)"
proof -
  have valid: "isValidLocalPos pos"
    using assms by (simp add: isValidLocalPos_def)
  show ?thesis
  proof (cases "storesDense c")
    case True
    then obtain xs where xs: "denseStorage c = Some xs" "isDense c"
      by (auto simp: storesDense_def)
    with inv True have len: "length xs = nat CHUNK_VOLUME"
      by (simp add: chunk_invariant_def)
    from getIndex_bounds [OF assms(1-6)] len have "nat (getIndex pos) < length xs"
      by simp
    with valid xs True show ?thesis
      by (simp add: chunk_getVoxel_def chunk_setVoxel_def storesDense_def Let_def)
  next
    case False
    with inv obtain m where m: "sparseStorage c = Some m"
      by (auto simp: chunk_invariant_def)
    with valid False show ?thesis
      by (auto simp: chunk_getVoxel_def chunk_setVoxel_def storesDense_def Let_def airVoxel_def)
  qed
qed

text \<open>The theorem in a dense chunk and in a sparse chunk, with a stone and an Air voxel.\<close>

theorem chunk_set_get_roundtrip_witness:
  "chunk_invariant (denseAirChunk (ChunkPos 0 0 0)) \<and>
   chunk_getVoxel (VoxelPos 5 5 5)
     (chunk_setVoxel (VoxelPos 5 5 5) Voxel_default (denseAirChunk (ChunkPos 0 0 0)))
     = Voxel_default \<and>
   chunk_invariant (WorldChunk_new (ChunkPos 0 0 0)) \<and>
   chunk_getVoxel (VoxelPos 5 5 5)
     (chunk_setVoxel (VoxelPos 5 5 5) (Voxel_mk STONE 200) (WorldChunk_new (ChunkPos 0 0 0)))
     = Voxel_mk STONE 200 \<and>
   chunk_getVoxel (VoxelPos 5 5 5)
     (chunk_setVoxel (VoxelPos 5 5 5) Voxel_default (WorldChunk_new (ChunkPos 0 0 0)))
     = Voxel_mk AIR 0"
proof -
  have d: "chunk_invariant (denseAirChunk (ChunkPos 0 0 0))"
    by (simp add: chunk_invariant_def denseAirChunk_def storesDense_def)
  have s: "chunk_invariant (WorldChunk_new (ChunkPos 0 0 0))"
    by (simp add: chunk_invariant_def WorldChunk_new_def storesDense_def)
  have r: "0 \<le> pos_x (VoxelPos 5 5 5)" "pos_x (VoxelPos 5 5 5) < CHUNK_SIZE"
    "0 \<le> pos_y (VoxelPos 5 5 5)" "pos_y (VoxelPos 5 5 5) < CHUNK_SIZE"
    "0 \<le> pos_z (VoxelPos 5 5 5)" "pos_z (VoxelPos 5 5 5) < CHUNK_SIZE"
    by (simp_all add: CHUNK_SIZE_def)
  have sd: "storesDense (denseAirChunk (ChunkPos 0 0 0))"
       "\<not> storesDense (WorldChunk_new (ChunkPos 0 0 0))"
    by (simp_all add: denseAirChunk_def WorldChunk_new_def storesDense_def)
  show ?thesis
    using chunk_set_get_roundtrip [OF r d, of Voxel_default]
      chunk_set_get_roundtrip [OF r s, of "Voxel_mk STONE 200"]
      chunk_set_get_roundtrip [OF r s, of Voxel_default]
      d s sd
    by (simp add: Voxel_default_def Voxel_mk_def AIR_def STONE_def)
qed

section \<open>WorldChunk: dirty levels\<close>

text \<open>
  Claim C3, evaluated at a chunk in state \<^verbatim>\<open>DIRTY_STRUCTURE\<close>: the state lies above
  \<^verbatim>\<open>DIRTY_MESH\<close> in the enumeration, \<^verbatim>\<open>needsPhysicsUpdate\<close> and \<^verbatim>\<open>needsStructuralAnalysis\<close>
  hold, and \<^verbatim>\<open>needsMeshUpdate\<close> does not.
\<close>

theorem needsMeshUpdate_at_DIRTY_STRUCTURE:
  "State_value DIRTY_MESH < State_value DIRTY_STRUCTURE \<and>
   \<not> needsMeshUpdate ((WorldChunk_new (ChunkPos 0 0 0))\<lparr>state := DIRTY_STRUCTURE\<rparr>) \<and>
   needsPhysicsUpdate ((WorldChunk_new (ChunkPos 0 0 0))\<lparr>state := DIRTY_STRUCTURE\<rparr>) \<and>
   needsStructuralAnalysis ((WorldChunk_new (ChunkPos 0 0 0))\<lparr>state := DIRTY_STRUCTURE\<rparr>)"
  by (simp add: needsMeshUpdate_def needsPhysicsUpdate_def needsStructuralAnalysis_def)

section \<open>Out-of-range writes\<close>

text \<open>
  Claim C9. A \<^verbatim>\<open>WorldChunk::setVoxel\<close> at a position outside \<open>[0, CHUNK_SIZE)\<close> on some axis
  returns the chunk unchanged, and a \<^verbatim>\<open>SparseVoxelOctree::setVoxel\<close> at a position outside
  \<open>[0, worldSize)\<close> on some axis returns the octree unchanged; so every later \<^verbatim>\<open>getVoxel\<close>
  answers as before. Neither function has an error result.
\<close>

theorem out_of_range_write_is_noop:
  "(\<not> (0 \<le> pos_x pos \<and> pos_x pos < CHUNK_SIZE \<and> 0 \<le> pos_y pos \<and> pos_y pos < CHUNK_SIZE \<and>
        0 \<le> pos_z pos \<and> pos_z pos < CHUNK_SIZE) \<longrightarrow>
      chunk_setVoxel pos v c = c \<and>
      (\<forall>q. chunk_getVoxel q (chunk_setVoxel pos v c) = chunk_getVoxel q c)) \<and>
   (\<not> (0 \<le> pos_x p \<and> pos_x p < worldSize svo \<and> 0 \<le> pos_y p \<and> pos_y p < worldSize svo \<and>
        0 \<le> pos_z p \<and> pos_z p < worldSize svo) \<longrightarrow>
      svo_setVoxel p v svo = svo \<and>
      (\<forall>q. svo_getVoxel q (svo_setVoxel p v svo) = svo_getVoxel q svo))"
  by (auto simp: chunk_setVoxel_def isValidLocalPos_def svo_setVoxel_def)

text \<open>The theorem at \<open>(64, 0, 0)\<close> in a fresh chunk and at \<open>(0, -1, 0)\<close> in a fresh octree.\<close>

theorem out_of_range_write_is_noop_witness:
  "\<not> (0 \<le> pos_x (VoxelPos 64 0 0) \<and> pos_x (VoxelPos 64 0 0) < CHUNK_SIZE \<and>
      0 \<le> pos_y (VoxelPos 64 0 0) \<and> pos_y (VoxelPos 64 0 0) < CHUNK_SIZE \<and>
      0 \<le> pos_z (VoxelPos 64 0 0) \<and> pos_z (VoxelPos 64 0 0) < CHUNK_SIZE) \<and>
   chunk_setVoxel (VoxelPos 64 0 0) (Voxel_mk STONE 255) (WorldChunk_new (ChunkPos 0 0 0))
     = WorldChunk_new (ChunkPos 0 0 0) \<and>
   \<not> (0 \<le> pos_x (VoxelPos 0 (-1) 0) \<and>
      pos_x (VoxelPos 0 (-1) 0) < worldSize (SparseVoxelOctree_new 20) \<and>
      0 \<le> pos_y (VoxelPos 0 (-1) 0) \<and>
      pos_y (VoxelPos 0 (-1) 0) < worldSize (SparseVoxelOctree_new 20) \<and>
      0 \<le> pos_z (VoxelPos 0 (-1) 0) \<and>
      pos_z (VoxelPos 0 (-1) 0) < worldSize (SparseVoxelOctree_new 20)) \<and>
   svo_setVoxel (VoxelPos 0 (-1) 0) (Voxel_mk STONE 255) (SparseVoxelOctree_new 20)
     = SparseVoxelOctree_new 20"
  using out_of_range_write_is_noop [of "VoxelPos 64 0 0" "Voxel_mk STONE 255"
      "WorldChunk_new (ChunkPos 0 0 0)" "VoxelPos 0 (-1) 0" "SparseVoxelOctree_new 20"]
  by (simp add: CHUNK_SIZE_def)

section \<open>ChunkPos of a negative voxel position\<close>

text \<open>
  Claim C4, evaluated at the voxel position \<open>(-1, 0, 0)\<close> with chunk size 64: the constructor
  yields chunk \<open>(0, 0, 0)\<close> where the floor of \<open>-1 / 64\<close> is \<open>-1\<close>; the local position is
  \<open>(-1, 0, 0)\<close>, which is not a valid local position, so a write there through the manager
  is dropped and the read returns Air.
\<close>

theorem ChunkPos_of_negative:
  "ChunkPos_of (VoxelPos (-1) 0 0) CHUNK_SIZE = ChunkPos 0 0 0 \<and>
   \<lfloor>(-1 :: real) / 64\<rfloor> = -1 \<and>
   ChunkPos ((-1) div CHUNK_SIZE) (0 div CHUNK_SIZE) (0 div CHUNK_SIZE) = ChunkPos (-1) 0 0 \<and>
   localPosOf (VoxelPos (-1) 0 0) = VoxelPos (-1) 0 0 \<and>
   \<not> isValidLocalPos (localPosOf (VoxelPos (-1) 0 0)) \<and>
   manager_getVoxel (VoxelPos (-1) 0 0)
     (manager_setVoxel (VoxelPos (-1) 0 0) (Voxel_mk STONE 255) VoxelWorldManager_new)
     = Voxel_mk AIR 0"
  by (simp add: ChunkPos_of_def CHUNK_SIZE_def localPosOf_def isValidLocalPos_def
      signed_divide_int_def signed_modulo_int_def manager_getVoxel_def manager_setVoxel_def
      VoxelWorldManager_new_def getChunk_def loadChunk_def createChunk_def updateChunk_def
      markChunkDirty_def chunkAt_def chunk_setVoxel_def chunk_getVoxel_def WorldChunk_new_def
      airVoxel_def Let_def)

section \<open>loadChunk\<close>

text \<open>
  Claim C6, evaluated on a freshly constructed manager: after \<^verbatim>\<open>loadChunk((0,0,0), NORMAL)\<close>
  the chunk is in the active table and one task is queued, a second \<^verbatim>\<open>loadChunk\<close> of the
  same position changes nothing, and the state of the chunk a reader sees is
  \<^verbatim>\<open>UNLOADED\<close>, not \<^verbatim>\<open>LOADING\<close>.
\<close>

theorem loadChunk_state_not_LOADING:
  "getChunk (ChunkPos 0 0 0) (loadChunk (ChunkPos 0 0 0) NORMAL VoxelWorldManager_new) = Some 0 \<and>
   map_option state (chunkAt 0 (loadChunk (ChunkPos 0 0 0) NORMAL VoxelWorldManager_new))
     = Some UNLOADED \<and>
   loadingQueue (loadChunk (ChunkPos 0 0 0) NORMAL VoxelWorldManager_new)
     = [\<lparr>task_position = ChunkPos 0 0 0, task_chunk = 0, priority = NORMAL\<rparr>] \<and>
   loadChunk (ChunkPos 0 0 0) NORMAL (loadChunk (ChunkPos 0 0 0) NORMAL VoxelWorldManager_new)
     = loadChunk (ChunkPos 0 0 0) NORMAL VoxelWorldManager_new"
  by (simp add: loadChunk_def createChunk_def VoxelWorldManager_new_def getChunk_def chunkAt_def
      WorldChunk_new_def)

section \<open>The loading queue\<close>

text \<open>
  Claim C7, evaluated on a freshly constructed manager: with a \<^verbatim>\<open>NORMAL\<close> load enqueued
  before an \<^verbatim>\<open>URGENT\<close> one, a worker's turn takes the \<^verbatim>\<open>NORMAL\<close> task: afterwards the
  \<^verbatim>\<open>URGENT\<close> task is still queued and its chunk not loaded.
\<close>

theorem loadingQueue_is_fifo:
  "map priority (loadingQueue
      (loadChunk (ChunkPos 1 0 0) URGENT (loadChunk (ChunkPos 0 0 0) NORMAL VoxelWorldManager_new)))
     = [NORMAL, URGENT] \<and>
   map priority (loadingQueue (chunkLoadingWorker_step
      (loadChunk (ChunkPos 1 0 0) URGENT (loadChunk (ChunkPos 0 0 0) NORMAL VoxelWorldManager_new))))
     = [URGENT] \<and>
   map_option state (chunkAt 0 (chunkLoadingWorker_step
      (loadChunk (ChunkPos 1 0 0) URGENT (loadChunk (ChunkPos 0 0 0) NORMAL VoxelWorldManager_new))))
     = Some ACTIVE \<and>
   map_option state (chunkAt 1 (chunkLoadingWorker_step
      (loadChunk (ChunkPos 1 0 0) URGENT (loadChunk (ChunkPos 0 0 0) NORMAL VoxelWorldManager_new))))
     = Some UNLOADED"
  by (simp add: loadChunk_def createChunk_def VoxelWorldManager_new_def chunkAt_def
      chunkLoadingWorker_step_def loadChunkFromSVO_def updateChunk_def Let_def
      WorldChunk_new_def)

section \<open>The octree as a trie of child indices\<close>

text \<open>
  Selectors of updated nodes, the child mask as a bit set, and the loop of \<^verbatim>\<open>findNode\<close>
  one level at a time.
\<close>

lemma shl1_int32_small: "k < 31 \<Longrightarrow> shl1_int32 k = 2 ^ k"
proof -
  assume k: "k < 31"
  have "push_bit k (1 :: 32 word) = word_of_int (2 ^ k)"
    by (simp add: push_bit_eq_mult)
  then have "shl1_int32 k = sint (word_of_int (2 ^ k) :: 32 word)"
    by (simp only: shl1_int32_def)
  also have "\<dots> = signed_take_bit 31 (2 ^ k :: int)"
    by (simp only: sint_sbintrunc') simp
  also have "\<dots> = 2 ^ k"
  proof (rule signed_take_bit_int_eq_self)
    show "- (2 ^ 31) \<le> (2 :: int) ^ k" by (rule order_trans [of _ 0]) simp_all
    show "(2 :: int) ^ k < 2 ^ 31" using k by (intro power_strict_increasing) simp_all
  qed
  finally show ?thesis .
qed

lemma shl1_int32_20: "shl1_int32 20 = 1048576"
  by (simp add: shl1_int32_small)

lemma sel_set [simp]:
  "isLeaf (set_childMask cm n) = isLeaf n" "isUniform (set_childMask cm n) = isUniform n"
  "nodeMaterialID (set_childMask cm n) = nodeMaterialID n" "level (set_childMask cm n) = level n"
  "children (set_childMask cm n) = children n" "childMask (set_childMask cm n) = cm"
  "isLeaf (set_nodeMaterialID mat n) = isLeaf n" "isUniform (set_nodeMaterialID mat n) = isUniform n"
  "nodeMaterialID (set_nodeMaterialID mat n) = mat" "level (set_nodeMaterialID mat n) = level n"
  "children (set_nodeMaterialID mat n) = children n" "childMask (set_nodeMaterialID mat n) = childMask n"
  "isLeaf (set_isLeaf b n) = b" "isUniform (set_isLeaf b n) = isUniform n"
  "nodeMaterialID (set_isLeaf b n) = nodeMaterialID n" "level (set_isLeaf b n) = level n"
  "children (set_isLeaf b n) = children n" "childMask (set_isLeaf b n) = childMask n"
  "isLeaf (set_isUniform b n) = isLeaf n" "isUniform (set_isUniform b n) = b"
  "nodeMaterialID (set_isUniform b n) = nodeMaterialID n" "level (set_isUniform b n) = level n"
  "children (set_isUniform b n) = children n" "childMask (set_isUniform b n) = childMask n"
  "isLeaf (set_children ch n) = isLeaf n" "isUniform (set_children ch n) = isUniform n"
  "nodeMaterialID (set_children ch n) = nodeMaterialID n" "level (set_children ch n) = level n"
  "children (set_children ch n) = ch" "childMask (set_children ch n) = childMask n"
  by (cases n; simp)+

lemma hasChild_bit: "hasChild n i = bit (childMask n) i"
  by (simp add: hasChild_def bit_iff_and_push_bit_not_eq_0)

lemma hasChild_setChild: "i < 32 \<Longrightarrow> hasChild (setChild i n) j = (j = i \<or> hasChild n j)"
  by (auto simp: hasChild_bit setChild_def bit_or_iff bit_exp_iff)

lemma hasChild_mask0: "childMask n = 0 \<Longrightarrow> \<not> hasChild n i"
  by (simp add: hasChild_bit)

lemma hasChild_cong: "childMask n' = childMask n \<Longrightarrow> hasChild n' i = hasChild n i"
  by (simp add: hasChild_bit)

lemma getChildIndex_lt: "getChildIndex p l < 8"
  by (simp add: getChildIndex_def Let_def)


lemma createChild_sel [simp]:
  "children (createChild i n) =
     Some ((case children n of None \<Rightarrow> replicate CHILDREN_COUNT None | Some cs \<Rightarrow> cs)
             [i := Some (SVONode_new (level n - 1))])"
  "isLeaf (createChild i n) = isLeaf n"
  "childMask (createChild i n) = childMask n OR push_bit i 1"
  by (simp_all add: createChild_def setChild_def Let_def)

lemma hasChild_createChild: "i < 32 \<Longrightarrow> hasChild (createChild i n) j = (j = i \<or> hasChild n j)"
  by (auto simp: hasChild_bit bit_or_iff bit_exp_iff)

lemma putChild_sel [simp]:
  "children (putChild i c n) = map_option (\<lambda>cs. cs[i := Some c]) (children n)"
  "isLeaf (putChild i c n) = isLeaf n"
  "childMask (putChild i c n) = childMask n"
  by (simp_all add: putChild_def split: option.splits)

lemma hasChild_putChild [simp]: "hasChild (putChild i c n) j = hasChild n j"
  by (simp add: hasChild_bit)

lemma hasChild_set [simp]:
  "hasChild (set_children ch n) j = hasChild n j"
  "hasChild (set_isLeaf b n) j = hasChild n j"
  "hasChild (set_isUniform b n) j = hasChild n j"
  "hasChild (set_nodeMaterialID m n) j = hasChild n j"
  by (simp_all add: hasChild_bit)

lemma getChild_eq:
  "getChild n i = (if hasChild n i then (case children n of None \<Rightarrow> None | Some cs \<Rightarrow> cs ! i) else None)"
  by (auto simp: getChild_def split: option.splits)

lemma svo_wf_new [simp]: "svo_wf l (SVONode_new x)"
  by (cases l) (simp_all add: SVONode_new_def)

lemma writeLeaf_sel [simp]:
  "isLeaf (writeLeaf v n) = isLeaf n" "childMask (writeLeaf v n) = childMask n"
  "children (writeLeaf v n) = children n"
  by (simp_all add: writeLeaf_def)

text \<open>The loop body when a path is being created: at a leaf above level 1, and at an inner node.\<close>

lemma findNode_loop_leaf:
  assumes "isLeaf n" "l \<ge> 1"
  shows "fst (findNode_loop (Suc l) q True f n) =
    (let n1 = set_children (Some (replicate CHILDREN_COUNT None)) (set_isLeaf False n);
         i = getChildIndex q (Suc l);
         n2 = (if hasChild n1 i then n1 else createChild i n1)
     in case getChild n2 i of None \<Rightarrow> n2
        | Some c \<Rightarrow> putChild i (fst (findNode_loop l q True f c)) n2)"
  using assms by (simp add: Let_def split_beta split: option.split)

lemma findNode_loop_inner:
  assumes "\<not> isLeaf n"
  shows "fst (findNode_loop (Suc l) q True f n) =
    (let i = getChildIndex q (Suc l);
         n2 = (if hasChild n i then n else createChild i n)
     in case getChild n2 i of None \<Rightarrow> n2
        | Some c \<Rightarrow> putChild i (fst (findNode_loop l q True f c)) n2)"
  using assms by (simp add: Let_def split_beta split: option.split)

lemma set_wf:
  "svo_wf l n \<Longrightarrow> svo_wf l (fst (findNode_loop l q True (writeLeaf v) n))"
proof (induction l arbitrary: n)
  case 0
  then show ?case by simp
next
  case (Suc l)
  let ?i = "getChildIndex q (Suc l)"
  let ?new = "SVONode_new (level n - 1)"
  have i8: "?i < 8" by (rule getChildIndex_lt)
  have new: "svo_wf l (fst (findNode_loop l q True (writeLeaf v) ?new))"
    by (rule Suc.IH) simp
  show ?case
  proof (cases "isLeaf n")
    case True
    show ?thesis
    proof (cases "l = 0")
      case l0: True
      with True Suc.prems show ?thesis by simp
    next
      case False
      then have l1: "l \<ge> 1" by simp
      from True Suc.prems have m0: "childMask n = 0" by simp
      from True l1 m0 i8 new show ?thesis
        unfolding findNode_loop_leaf [OF True l1]
        by (auto simp: Let_def hasChild_mask0 getChild_eq hasChild_createChild
            CHILDREN_COUNT_def)
    qed
  next
    case False
    with Suc.prems obtain cs where cs: "l \<ge> 1" "children n = Some cs" "length cs = 8"
      "\<forall>j<8. hasChild n j \<longrightarrow> (\<exists>c. cs ! j = Some c \<and> svo_wf l c)"
      by (auto simp: CHILDREN_COUNT_def)
    show ?thesis
    proof (cases "hasChild n ?i")
      case True
      with cs i8 obtain c where c': "cs ! ?i = Some c" "svo_wf l c" by blast
      from Suc.IH [OF c'(2)] have "svo_wf l (fst (findNode_loop l q True (writeLeaf v) c))" .
      with False True cs c' i8 show ?thesis
        unfolding findNode_loop_inner [OF False]
        by (auto simp: Let_def getChild_eq CHILDREN_COUNT_def nth_list_update)
    next
      case nc: False
      with False cs i8 new show ?thesis
        unfolding findNode_loop_inner [OF False]
        by (auto simp: Let_def getChild_eq CHILDREN_COUNT_def nth_list_update
            hasChild_createChild)
    qed
  qed
qed


lemma svo_holds_Suc:
  "l \<ge> 1 \<Longrightarrow> svo_holds (Suc l) p m n =
     (\<not> isLeaf n \<and> hasChild n (getChildIndex p (Suc l)) \<and>
      (\<exists>cs c. children n = Some cs \<and> length cs = CHILDREN_COUNT \<and>
         cs ! getChildIndex p (Suc l) = Some c \<and> svo_holds l p m c))"
  by (cases l) simp_all

lemma samePath_Suc:
  "l \<ge> 1 \<Longrightarrow> samePath (Suc l) q p =
     (getChildIndex q (Suc l) = getChildIndex p (Suc l) \<and> samePath l q p)"
  by (cases l) simp_all

lemma set_same:
  "svo_wf l n \<Longrightarrow> l \<ge> 1 \<Longrightarrow> samePath l q p \<Longrightarrow>
   svo_holds l p (materialID v) (fst (findNode_loop l q True (writeLeaf v) n))"
proof (induction l arbitrary: n)
  case 0
  then show ?case by simp
next
  case (Suc l)
  show ?case
  proof (cases "l = 0")
    case True
    with Suc.prems have "isLeaf n" by (simp split: if_splits)
    with True show ?thesis by (simp add: writeLeaf_def)
  next
    case False
    let ?i = "getChildIndex q (Suc l)"
    let ?new = "SVONode_new (level n - 1)"
    have l1: "l \<ge> 1" using False by simp
    from Suc.prems(3) l1 have same: "getChildIndex p (Suc l) = ?i" "samePath l q p"
      by (simp_all add: samePath_Suc)
    have i8: "?i < 8" by (rule getChildIndex_lt)
    have new: "svo_holds l p (materialID v) (fst (findNode_loop l q True (writeLeaf v) ?new))"
      by (rule Suc.IH) (use l1 same in simp_all)
    show ?thesis
    proof (cases "isLeaf n")
      case True
      from True Suc.prems have m0: "childMask n = 0" by simp
      from True m0 i8 new same show ?thesis
        unfolding findNode_loop_leaf [OF True l1] svo_holds_Suc [OF l1]
        by (auto simp: Let_def hasChild_mask0 getChild_eq hasChild_createChild
            CHILDREN_COUNT_def simp del: findNode_loop.simps)
    next
      case nl: False
      with Suc.prems obtain cs where cs: "children n = Some cs" "length cs = 8"
        "\<forall>j<8. hasChild n j \<longrightarrow> (\<exists>c. cs ! j = Some c \<and> svo_wf l c)"
        by (auto simp: CHILDREN_COUNT_def)
      show ?thesis
      proof (cases "hasChild n ?i")
        case True
        with cs i8 obtain c where c': "cs ! ?i = Some c" "svo_wf l c" by blast
        from Suc.IH [OF c'(2) l1 same(2)]
        have "svo_holds l p (materialID v) (fst (findNode_loop l q True (writeLeaf v) c))" .
        with nl True cs c' i8 same show ?thesis
          unfolding findNode_loop_inner [OF nl] svo_holds_Suc [OF l1]
          by (auto simp: Let_def getChild_eq CHILDREN_COUNT_def simp del: findNode_loop.simps)
      next
        case nc: False
        with nl cs i8 new same show ?thesis
          unfolding findNode_loop_inner [OF nl] svo_holds_Suc [OF l1]
          by (auto simp: Let_def getChild_eq CHILDREN_COUNT_def hasChild_createChild
              simp del: findNode_loop.simps)
      qed
    qed
  qed
qed

lemma set_other:
  "svo_holds l p m n \<Longrightarrow> \<not> samePath l q p \<Longrightarrow>
   svo_holds l p m (fst (findNode_loop l q True f n))"
proof (induction l arbitrary: n)
  case 0
  then show ?case by simp
next
  case (Suc l)
  show ?case
  proof (cases "l = 0")
    case True
    with Suc.prems show ?thesis by simp
  next
    case False
    then have l1: "l \<ge> 1" by simp
    let ?i = "getChildIndex q (Suc l)"
    let ?j = "getChildIndex p (Suc l)"
    have i8: "?i < 8" "?j < 8" by (rule getChildIndex_lt)+
    from Suc.prems(1) obtain cs c where
      n: "\<not> isLeaf n" "hasChild n ?j" "children n = Some cs" "length cs = 8" "cs ! ?j = Some c"
        "svo_holds l p m c"
      unfolding svo_holds_Suc [OF l1] by (auto simp: CHILDREN_COUNT_def)
    show ?thesis
    proof (cases "?i = ?j")
      case True
      with Suc.prems(2) l1 have "\<not> samePath l q p" by (simp add: samePath_Suc)
      from Suc.IH [OF n(6) this]
      have "svo_holds l p m (fst (findNode_loop l q True f c))" .
      with n True i8 show ?thesis
        unfolding findNode_loop_inner [OF n(1)] svo_holds_Suc [OF l1]
        by (auto simp: Let_def getChild_eq CHILDREN_COUNT_def simp del: findNode_loop.simps)
    next
      case ne: False
      with n i8 show ?thesis
        unfolding findNode_loop_inner [OF n(1)] svo_holds_Suc [OF l1]
        by (auto simp: Let_def getChild_eq CHILDREN_COUNT_def hasChild_createChild
            simp del: findNode_loop.simps split: option.splits)
    qed
  qed
qed

lemma holds_find:
  "svo_holds l p m n \<Longrightarrow>
   \<exists>nd. snd (findNode_loop l p False f n) = Some nd \<and> isLeaf nd \<and> isUniform nd \<and>
        nodeMaterialID nd = m"
proof (induction l arbitrary: n)
  case 0
  then show ?case by simp
next
  case (Suc l)
  show ?case
  proof (cases "l = 0")
    case True
    with Suc.prems show ?thesis by simp
  next
    case False
    then have l1: "l \<ge> 1" by simp
    let ?j = "getChildIndex p (Suc l)"
    from Suc.prems(1) obtain cs c where
      n: "\<not> isLeaf n" "hasChild n ?j" "children n = Some cs" "length cs = 8" "cs ! ?j = Some c"
        "svo_holds l p m c"
      unfolding svo_holds_Suc [OF l1] by (auto simp: CHILDREN_COUNT_def)
    from Suc.IH [OF n(6)] obtain nd where
      nd: "snd (findNode_loop l p False f c) = Some nd" "isLeaf nd" "isUniform nd"
        "nodeMaterialID nd = m" by blast
    have "snd (findNode_loop (Suc l) p False f n) = snd (findNode_loop l p False f c)"
      using n by (simp add: Let_def getChild_eq split_beta del: findNode_loop.simps(1))
    with nd show ?thesis by simp
  qed
qed

subsection \<open>Writes and reads of the whole octree\<close>

lemma svo_setVoxel_fields [simp]:
  "maxDepth (svo_setVoxel q v t) = maxDepth t" "worldSize (svo_setVoxel q v t) = worldSize t"
  by (simp_all add: svo_setVoxel_def split: option.splits)

lemma svo_setVoxel_inv: "svo_inv t \<Longrightarrow> svo_inv (svo_setVoxel q v t)"
  by (auto simp: svo_inv_def svo_setVoxel_def set_wf split: option.splits)

lemma svo_setVoxel_same:
  assumes "svo_inv t" "maxDepth t \<ge> 1" "samePath (maxDepth t) q p"
    and "0 \<le> pos_x q" "pos_x q < worldSize t" "0 \<le> pos_y q" "pos_y q < worldSize t"
      "0 \<le> pos_z q" "pos_z q < worldSize t"
  shows "svo_reads p (materialID v) (svo_setVoxel q v t)"
  using assms by (auto simp: svo_inv_def svo_reads_def svo_setVoxel_def set_same split: option.splits)

lemma svo_setVoxel_other:
  "svo_reads p m t \<Longrightarrow> \<not> samePath (maxDepth t) q p \<Longrightarrow> svo_reads p m (svo_setVoxel q v t)"
  by (auto simp: svo_reads_def svo_setVoxel_def set_other split: option.splits)

lemma svo_reads_getVoxel: "svo_reads p m t \<Longrightarrow> svo_getVoxel p t = Voxel_mk m 255"
proof -
  assume a: "svo_reads p m t"
  then obtain r where r: "root t = Some r" "svo_holds (maxDepth t) p m r"
    by (auto simp: svo_reads_def split: option.splits)
  from holds_find [OF r(2), of id] r(1) show ?thesis
    by (auto simp: svo_getVoxel_def findNode_def)
qed

lemma fold_inv:
  assumes "I s" and "\<And>x s. x \<in> set xs \<Longrightarrow> I s \<Longrightarrow> I (f x s)"
  shows "I (fold f xs s)"
  using assms by (induction xs arbitrary: s) auto

lemma fold_switch:
  assumes "I1 s"
    and "\<And>x s. x \<in> set xs \<Longrightarrow> I1 s \<Longrightarrow> I1 (f x s)"
    and "\<And>s. I1 s \<Longrightarrow> I2 (f a s)"
    and "\<And>x s. x \<in> set ys \<Longrightarrow> I2 s \<Longrightarrow> I2 (f x s)"
  shows "I2 (fold f (xs @ a # ys) s)"
proof -
  have "I1 (fold f xs s)" by (rule fold_inv [of I1, OF assms(1) assms(2)])
  then have "I2 (f a (fold f xs s))" by (rule assms(3))
  then have "I2 (fold f ys (f a (fold f xs s)))" by (rule fold_inv [of I2, OF _ assms(4)])
  then show ?thesis by simp
qed

lemma chunk_loop_inv:
  assumes s: "I s"
    and keep: "\<And>x y z s. 0 \<le> x \<Longrightarrow> x \<le> 63 \<Longrightarrow> 0 \<le> y \<Longrightarrow> y \<le> 63 \<Longrightarrow> 0 \<le> z \<Longrightarrow> z \<le> 63 \<Longrightarrow>
           I s \<Longrightarrow> I (body x y z s)"
  shows "I (chunk_loop body s)"
proof -
  define row where "row x y = fold (body x y) [0..63]" for x y
  define plane where "plane x = fold (row x) [0..63]" for x
  have re: "row x = (\<lambda>y. fold (body x y) [0..63])" for x
    by (rule ext) (simp add: row_def)
  have pe: "plane = (\<lambda>x. fold (\<lambda>y. fold (body x y) [0..63]) [0..63])"
    by (rule ext) (simp add: plane_def re)
  have row: "I (row x y t)" if "I t" "0 \<le> x" "x \<le> 63" "0 \<le> y" "y \<le> 63" for x y t
    unfolding row_def
    by (rule fold_inv [where I = I and f = "body x y", OF that(1)]) (rule keep, use that in auto)
  have plane: "I (plane x t)" if "I t" "0 \<le> x" "x \<le> 63" for x t
    unfolding plane_def
    by (rule fold_inv [where I = I and f = "row x", OF that(1)]) (rule row, use that in auto)
  have "I (fold plane [0..63] s)"
    by (rule fold_inv [where I = I and f = plane, OF s]) (rule plane, auto)
  then show ?thesis
    by (simp add: chunk_loop_def CHUNK_SIZE_def pe)
qed

text \<open>
  An invariant \<open>I1\<close> that every iteration keeps, an iteration \<open>(a, b, c)\<close> that turns \<open>I1\<close>
  into \<open>I2\<close>, and \<open>I2\<close> kept by every later iteration: \<open>I2\<close> holds after the loops.
\<close>

lemma chunk_loop_switch:
  assumes s: "I1 s"
    and abc: "0 \<le> a" "a \<le> 63" "0 \<le> b" "b \<le> 63" "0 \<le> c" "c \<le> 63"
    and keep1: "\<And>x y z s. I1 s \<Longrightarrow> I1 (body x y z s)"
    and switch: "\<And>s. I1 s \<Longrightarrow> I2 (body a b c s)"
    and keep2: "\<And>x y z s. a < x \<or> (x = a \<and> (b < y \<or> (y = b \<and> c < z))) \<Longrightarrow>
                  I2 s \<Longrightarrow> I2 (body x y z s)"
  shows "I2 (chunk_loop body s)"
proof -
  define row where "row x y = fold (body x y) [0..63]" for x y
  define plane where "plane x = fold (row x) [0..63]" for x
  have re: "row x = (\<lambda>y. fold (body x y) [0..63])" for x
    by (rule ext) (simp add: row_def)
  have pe: "plane = (\<lambda>x. fold (\<lambda>y. fold (body x y) [0..63]) [0..63])"
    by (rule ext) (simp add: plane_def re)
  have zs: "[0..63] = [0..c - 1] @ c # [c + 1..63]" using abc by (intro upto_split3) simp_all
  have ys: "[0..63] = [0..b - 1] @ b # [b + 1..63]" using abc by (intro upto_split3) simp_all
  have xs: "[0..63] = [0..a - 1] @ a # [a + 1..63]" using abc by (intro upto_split3) simp_all
  have row1: "I1 (row x y t)" if "I1 t" for x y t
    unfolding row_def
    by (rule fold_inv [where I = I1 and f = "body x y", OF that]) (rule keep1)
  have plane1: "I1 (plane x t)" if "I1 t" for x t
    unfolding plane_def
    by (rule fold_inv [where I = I1 and f = "row x", OF that]) (rule row1)
  have row2: "I2 (row x y t)" if "I2 t" "a < x \<or> (x = a \<and> b < y)" for x y t
    unfolding row_def
    by (rule fold_inv [where I = I2 and f = "body x y", OF that(1)])
       (rule keep2, use that(2) in auto)
  have plane2: "I2 (plane x t)" if "I2 t" "a < x" for x t
    unfolding plane_def
    by (rule fold_inv [where I = I2 and f = "row x", OF that(1)])
       (rule row2, use that(2) in auto)
  have rowS: "I2 (row a b t)" if "I1 t" for t
  proof -
    have "I2 (fold (body a b) ([0..c - 1] @ c # [c + 1..63]) t)"
      by (rule fold_switch [where ?I1.0 = I1 and ?I2.0 = I2 and f = "body a b", OF that])
         (use keep1 switch keep2 in auto)
    then show ?thesis unfolding row_def using zs by simp
  qed
  have planeS: "I2 (plane a t)" if "I1 t" for t
  proof -
    have "I2 (fold (row a) ([0..b - 1] @ b # [b + 1..63]) t)"
      by (rule fold_switch [where ?I1.0 = I1 and ?I2.0 = I2 and f = "row a", OF that])
         (use row1 rowS row2 in auto)
    then show ?thesis unfolding plane_def using ys by simp
  qed
  have "I2 (fold plane ([0..a - 1] @ a # [a + 1..63]) s)"
    by (rule fold_switch [where ?I1.0 = I1 and ?I2.0 = I2 and f = plane, OF s])
       (use plane1 planeS plane2 in auto)
  then have "I2 (fold plane [0..63] s)" using xs by simp
  then show ?thesis
    by (simp add: chunk_loop_def CHUNK_SIZE_def pe)
qed

subsection \<open>What \<^verbatim>\<open>storeChunkData\<close> leaves at an aliased position, and what \<^verbatim>\<open>loadChunkData\<close> skips\<close>

lemma samePath_556: "samePath 20 (VoxelPos 5 5 6) (VoxelPos 5 5 5)"
  by code_simp

lemma svo_setVoxel_keeps_reads:
  assumes "svo_inv t" "maxDepth t \<ge> 1" "svo_reads p m t"
    and "materialID v = m \<or> \<not> samePath (maxDepth t) q p"
  shows "svo_reads p m (svo_setVoxel q v t)"
proof (cases "samePath (maxDepth t) q p")
  case False
  with assms(3) show ?thesis by (rule svo_setVoxel_other)
next
  case True
  with assms(4) have m: "materialID v = m" by simp
  show ?thesis
  proof (cases "0 \<le> pos_x q \<and> pos_x q < worldSize t \<and> 0 \<le> pos_y q \<and> pos_y q < worldSize t \<and>
                0 \<le> pos_z q \<and> pos_z q < worldSize t")
    case True
    with svo_setVoxel_same [OF assms(1,2) \<open>samePath (maxDepth t) q p\<close>, of v] m
    show ?thesis by simp
  next
    case False
    then have "svo_setVoxel q v t = t" by (auto simp: svo_setVoxel_def)
    with assms(3) show ?thesis by simp
  qed
qed

lemma storeChunkData_overwrites:
  assumes air: "\<And>lp. lp \<noteq> VoxelPos 5 5 5 \<Longrightarrow> materialID (chunk_getVoxel lp c) = AIR"
  shows "svo_getVoxel (VoxelPos 5 5 5)
           (storeChunkData (ChunkPos 0 0 0) c (SparseVoxelOctree_new 20)) = Voxel_mk AIR 255"
proof -
  define I1 where "I1 t = (svo_inv t \<and> maxDepth t = 20 \<and> worldSize t = 2 ^ 20)" for t
  define I2 where "I2 t = (I1 t \<and> svo_reads (VoxelPos 5 5 5) AIR t)" for t
  define body where
    "body x y z t = svo_setVoxel (VoxelPos x y z) (chunk_getVoxel (VoxelPos x y z) c) t"
    for x y z t
  have store: "storeChunkData (ChunkPos 0 0 0) c t = chunk_loop body t" for t
    unfolding storeChunkData_def toVoxelPos_def body_def [abs_def] by (simp add: Let_def)
  have init: "I1 (SparseVoxelOctree_new 20)"
    by (simp add: I1_def svo_inv_def SparseVoxelOctree_new_def shl1_int32_20)
  have keep1: "I1 (body x y z t)" if "I1 t" for x y z t
    using that by (simp add: I1_def body_def svo_setVoxel_inv)
  have switch: "I2 (body 5 5 6 t)" if "I1 t" for t
  proof -
    have "svo_reads (VoxelPos 5 5 5) (materialID (chunk_getVoxel (VoxelPos 5 5 6) c))
            (svo_setVoxel (VoxelPos 5 5 6) (chunk_getVoxel (VoxelPos 5 5 6) c) t)"
      by (rule svo_setVoxel_same) (use that samePath_556 in \<open>simp_all add: I1_def\<close>)
    with keep1 [OF that, of 5 5 6] air [of "VoxelPos 5 5 6"] show ?thesis
      by (simp add: I2_def body_def)
  qed
  have keep2: "I2 (body x y z t)"
    if "5 < x \<or> (x = 5 \<and> (5 < y \<or> (y = 5 \<and> 6 < z)))" "I2 t" for x y z t
  proof -
    from that(1) have "VoxelPos x y z \<noteq> VoxelPos 5 5 5" by auto
    then have "materialID (chunk_getVoxel (VoxelPos x y z) c) = AIR" by (rule air)
    with that(2) have "svo_reads (VoxelPos 5 5 5) AIR (body x y z t)"
      unfolding body_def I2_def I1_def by (intro svo_setVoxel_keeps_reads) simp_all
    with keep1 [of t x y z] that(2) show ?thesis by (simp add: I2_def)
  qed
  have "I2 (chunk_loop body (SparseVoxelOctree_new 20))"
    by (rule chunk_loop_switch [where ?I1.0 = I1 and a = 5 and b = 5 and c = 6, OF init])
       (use keep1 switch keep2 in auto)
  then have "svo_reads (VoxelPos 5 5 5) AIR
               (storeChunkData (ChunkPos 0 0 0) c (SparseVoxelOctree_new 20))"
    by (simp add: I2_def store)
  then show ?thesis by (rule svo_reads_getVoxel)
qed

lemma storesDense_setVoxel [simp]: "storesDense (chunk_setVoxel q v c) = storesDense c"
  by (auto simp: storesDense_def chunk_setVoxel_def Let_def split: option.splits)

lemma chunk_setVoxel_other_sparse:
  "\<not> storesDense c \<Longrightarrow> q \<noteq> p \<Longrightarrow> chunk_getVoxel p (chunk_setVoxel q v c) = chunk_getVoxel p c"
  by (auto simp: storesDense_def chunk_setVoxel_def chunk_getVoxel_def Let_def split: option.splits)

lemma loadChunkData_skips_air:
  assumes air: "materialID (svo_getVoxel
                  (VoxelPos (pos_x (toVoxelPos cp CHUNK_SIZE) + pos_x p)
                            (pos_y (toVoxelPos cp CHUNK_SIZE) + pos_y p)
                            (pos_z (toVoxelPos cp CHUNK_SIZE) + pos_z p)) svo) = AIR"
    and sparse: "\<not> storesDense c"
  shows "chunk_getVoxel p (loadChunkData cp svo c) = chunk_getVoxel p c"
proof -
  define I where "I c' = (\<not> storesDense c' \<and> chunk_getVoxel p c' = chunk_getVoxel p c)" for c'
  have "I (loadChunkData cp svo c)"
    unfolding loadChunkData_def Let_def
  proof (rule chunk_loop_inv [where I = I])
    show "I c" using sparse by (simp add: I_def)
  next
    fix x y z c'
    assume c': "I c'"
    show "I (if materialID (svo_getVoxel
                 (VoxelPos (pos_x (toVoxelPos cp CHUNK_SIZE) + x)
                           (pos_y (toVoxelPos cp CHUNK_SIZE) + y)
                           (pos_z (toVoxelPos cp CHUNK_SIZE) + z)) svo) \<noteq> AIR
             then chunk_setVoxel (VoxelPos x y z)
                    (svo_getVoxel
                      (VoxelPos (pos_x (toVoxelPos cp CHUNK_SIZE) + x)
                                (pos_y (toVoxelPos cp CHUNK_SIZE) + y)
                                (pos_z (toVoxelPos cp CHUNK_SIZE) + z)) svo) c'
             else c')"
    proof (cases "VoxelPos x y z = p")
      case True
      then have "pos_x p = x" "pos_y p = y" "pos_z p = z" by auto
      with air c' show ?thesis by simp
    next
      case False
      with c' show ?thesis by (simp add: I_def chunk_setVoxel_other_sparse)
    qed
  qed
  then show ?thesis by (simp add: I_def)
qed

lemma loadChunkData_all_air:
  assumes "\<And>q. materialID (svo_getVoxel q svo) = AIR"
  shows "loadChunkData cp svo c = c"
  unfolding loadChunkData_def Let_def
  by (rule chunk_loop_inv [where I = "\<lambda>c'. c' = c"]) (simp_all add: assms)

lemma findNode_loop_at_leaf: "isLeaf n \<Longrightarrow> findNode_loop l q False f n = (f n, Some n)"
  by (cases l) simp_all

lemma svo_getVoxel_new: "svo_getVoxel q (SparseVoxelOctree_new d) = Voxel_mk AIR 255"
  by (simp add: svo_getVoxel_def findNode_def SparseVoxelOctree_new_def SVONode_new_def
      findNode_loop_at_leaf AIR_def)

section \<open>Eviction and reload\<close>

lemma loadChunkData_new: "loadChunkData cp (SparseVoxelOctree_new d) c = c"
  by (rule loadChunkData_all_air) (simp add: svo_getVoxel_new Voxel_mk_def)

lemma chunk_getVoxel_state [simp]: "chunk_getVoxel p (c\<lparr>state := s\<rparr>) = chunk_getVoxel p c"
  by (auto simp: chunk_getVoxel_def)


lemma stoneChunk_air: "lp \<noteq> VoxelPos 5 5 5 \<Longrightarrow> materialID (chunk_getVoxel lp (stoneChunk s)) = AIR"
  by (simp add: stoneChunk_def chunk_getVoxel_def airVoxel_def Voxel_mk_def)

lemma stored_reads_air:
  "svo_getVoxel (VoxelPos 5 5 5)
     (storeChunkData (ChunkPos 0 0 0) (stoneChunk s) (SparseVoxelOctree_new 20)) = Voxel_mk AIR 255"
  by (rule storeChunkData_overwrites) (rule stoneChunk_air)

lemma reload_reads_air:
  "chunk_getVoxel (VoxelPos 5 5 5)
     (loadChunkData (ChunkPos 0 0 0)
        (storeChunkData (ChunkPos 0 0 0) (stoneChunk s) (SparseVoxelOctree_new 20))
        (WorldChunk_new (ChunkPos 0 0 0))) = Voxel_mk AIR 0"
proof -
  have "chunk_getVoxel (VoxelPos 5 5 5)
     (loadChunkData (ChunkPos 0 0 0)
        (storeChunkData (ChunkPos 0 0 0) (stoneChunk s) (SparseVoxelOctree_new 20))
        (WorldChunk_new (ChunkPos 0 0 0)))
    = chunk_getVoxel (VoxelPos 5 5 5) (WorldChunk_new (ChunkPos 0 0 0))"
    by (rule loadChunkData_skips_air)
       (simp_all add: toVoxelPos_def stored_reads_air Voxel_mk_def storesDense_def
          WorldChunk_new_def)
  then show ?thesis
    by (simp add: chunk_getVoxel_def WorldChunk_new_def airVoxel_def isValidLocalPos_def
        CHUNK_SIZE_def)
qed

lemma written_state_eq:
  "written_state =
     \<lparr>svoStorage = Some (SparseVoxelOctree_new 20),
      chunkStore = [0 \<mapsto> stoneChunk DIRTY_MESH], nextHandle = 1,
      activeChunks = [ChunkPos 0 0 0 \<mapsto> 0],
      loadingQueue = [\<lparr>task_position = ChunkPos 0 0 0, task_chunk = 0, priority = URGENT\<rparr>],
      stats_pendingLoads = 1, stats_activeChunks = 0\<rparr>"
  by (simp add: written_state_def manager_setVoxel_def VoxelWorldManager_new_def getChunk_def
      loadChunk_def createChunk_def updateChunk_def markChunkDirty_def ChunkPos_of_def
      localPosOf_def CHUNK_SIZE_def signed_divide_int_def signed_modulo_int_def
      chunk_setVoxel_def WorldChunk_new_def isValidLocalPos_def stoneChunk_def Voxel_mk_def
      STONE_def AIR_def Let_def)

lemma stoneChunk_state [simp]: "(stoneChunk s)\<lparr>state := s'\<rparr> = stoneChunk s'"
  by (simp add: stoneChunk_def)

text \<open>
  Claim C1, evaluated on the scenario. After the write and the first load, the manager reads
  \<^verbatim>\<open>Voxel(STONE,255)\<close> at \<open>(5,5,5)\<close>. After \<^verbatim>\<open>unloadChunk\<close>, \<^verbatim>\<open>loadChunk\<close> and the completed
  load it reads \<^verbatim>\<open>Voxel(AIR,0)\<close>, in both schedules of the workers: \<^verbatim>\<open>getChildIndex\<close>
  compares the absolute coordinate with the node size, so \<open>(5,5,5)\<close> and \<open>(5,5,6)\<close> reach the
  same leaf, and \<^verbatim>\<open>storeChunkData\<close> writes the Air voxel of \<open>(5,5,6)\<close> after the stone.
\<close>

theorem eviction_loses_voxel:
  "manager_getVoxel (VoxelPos 5 5 5) (chunkLoadingWorker_step written_state) = Voxel_mk STONE 255 \<and>
   manager_getVoxel (VoxelPos 5 5 5) eviction_scenario = Voxel_mk AIR 0 \<and>
   manager_getVoxel (VoxelPos 5 5 5) eviction_scenario_late = Voxel_mk AIR 0"
proof -
  have pos: "ChunkPos_of (VoxelPos 5 5 5) CHUNK_SIZE = ChunkPos 0 0 0"
    "ChunkPos_of (VoxelPos 5 5 5) 64 = ChunkPos 0 0 0"
    "localPosOf (VoxelPos 5 5 5) = VoxelPos 5 5 5"
    by (simp_all add: ChunkPos_of_def localPosOf_def CHUNK_SIZE_def signed_divide_int_def
        signed_modulo_int_def)
  have a: "manager_getVoxel (VoxelPos 5 5 5) (chunkLoadingWorker_step written_state)
             = Voxel_mk STONE 255"
    by (simp add: written_state_eq chunkLoadingWorker_step_def loadChunkFromSVO_def
        updateChunk_def loadChunkData_new manager_getVoxel_def pos getChunk_def chunkAt_def
        Let_def stoneChunk_def chunk_getVoxel_def isValidLocalPos_def CHUNK_SIZE_def)
  have b: "manager_getVoxel (VoxelPos 5 5 5) eviction_scenario = Voxel_mk AIR 0"
    by (simp add: eviction_scenario_def written_state_eq chunkLoadingWorker_step_def
        loadChunkFromSVO_def updateChunk_def loadChunkData_new unloadChunk_def
        storeChunkToSVO_def loadChunk_def createChunk_def manager_getVoxel_def pos
        getChunk_def chunkAt_def Let_def reload_reads_air)
  have c: "manager_getVoxel (VoxelPos 5 5 5) eviction_scenario_late = Voxel_mk AIR 0"
    by (simp add: eviction_scenario_late_def written_state_eq chunkLoadingWorker_step_def
        loadChunkFromSVO_def updateChunk_def unloadChunk_def
        storeChunkToSVO_def loadChunk_def createChunk_def manager_getVoxel_def pos
        getChunk_def chunkAt_def Let_def reload_reads_air)
  from a b c show ?thesis by simp
qed

section \<open>What the octree gives back\<close>

lemma writeLeaf_materialID_only:
  "materialID v' = materialID v \<Longrightarrow> writeLeaf v' = writeLeaf v"
  by (rule ext) (simp add: writeLeaf_def)

lemma svo_setVoxel_materialID_only:
  "materialID v' = materialID v \<Longrightarrow> svo_setVoxel q v' svo = svo_setVoxel q v svo"
  using writeLeaf_materialID_only [of v' v] by (simp add: svo_setVoxel_def split: option.splits)

lemma svo_getVoxel_eq:
  "svo_getVoxel p svo =
     Voxel_mk (materialID (svo_getVoxel p svo))
       (case findNode p svo of
          Some node \<Rightarrow> if isLeaf node \<and> isUniform node then 255 else 0
        | None \<Rightarrow> 0)"
  by (simp add: svo_getVoxel_def Voxel_mk_def split: option.splits)

lemma samePath_refl: "samePath l q q"
  by (induction l q q rule: samePath.induct) simp_all

lemma svo_setVoxel_reads_back:
  assumes inv: "svo_inv t"
    and rng: "0 \<le> pos_x q" "pos_x q < worldSize t" "0 \<le> pos_y q" "pos_y q < worldSize t"
      "0 \<le> pos_z q" "pos_z q < worldSize t"
  shows "svo_getVoxel q (svo_setVoxel q v t) = Voxel_mk (materialID v) 255"
proof (cases "maxDepth t")
  case 0
  from inv obtain r where r: "root t = Some r" "svo_wf (maxDepth t) r"
    by (auto simp: svo_inv_def split: option.splits)
  with 0 have "isLeaf r" by simp
  with r(1) 0 rng show ?thesis
    by (simp add: svo_setVoxel_def svo_getVoxel_def findNode_def writeLeaf_def)
next
  case (Suc l)
  then have "maxDepth t \<ge> 1" by simp
  from svo_setVoxel_same [OF inv this samePath_refl rng]
  show ?thesis by (rule svo_reads_getVoxel)
qed

lemma storeChunkData_materialID_only:
  assumes "\<And>lp. materialID (chunk_getVoxel lp c') = materialID (chunk_getVoxel lp c)"
  shows "storeChunkData cp c' svo = storeChunkData cp c svo"
proof -
  have "svo_setVoxel wp (chunk_getVoxel lp c') t = svo_setVoxel wp (chunk_getVoxel lp c) t"
    for wp lp t
    by (rule svo_setVoxel_materialID_only) (rule assms)
  then show ?thesis by (simp add: storeChunkData_def Let_def)
qed

text \<open>The last iteration of the three loops is \<open>(63, 63, 63)\<close>.\<close>

lemma chunk_loop_last:
  assumes s: "I1 s"
    and keep1: "\<And>x y z s. I1 s \<Longrightarrow> I1 (body x y z s)"
    and switch: "\<And>s. I1 s \<Longrightarrow> I2 (body 63 63 63 s)"
  shows "I2 (chunk_loop body s)"
proof -
  define row where "row x y = fold (body x y) [0..63]" for x y
  define plane where "plane x = fold (row x) [0..63]" for x
  have re: "row x = (\<lambda>y. fold (body x y) [0..63])" for x
    by (rule ext) (simp add: row_def)
  have pe: "plane = (\<lambda>x. fold (\<lambda>y. fold (body x y) [0..63]) [0..63])"
    by (rule ext) (simp add: plane_def re)
  have split: "[0..63] = [0..62] @ 63 # []"
    using upto_rec2 [of 0 63] by simp
  have row1: "I1 (row x y t)" if "I1 t" for x y t
    unfolding row_def
    by (rule fold_inv [where I = I1 and f = "body x y", OF that]) (rule keep1)
  have plane1: "I1 (plane x t)" if "I1 t" for x t
    unfolding plane_def
    by (rule fold_inv [where I = I1 and f = "row x", OF that]) (rule row1)
  have rowS: "I2 (row 63 63 t)" if "I1 t" for t
  proof -
    have "I2 (fold (body 63 63) ([0..62] @ 63 # []) t)"
      by (rule fold_switch [where ?I1.0 = I1 and ?I2.0 = I2 and f = "body 63 63", OF that])
         (use keep1 switch in auto)
    then show ?thesis unfolding row_def using split by simp
  qed
  have planeS: "I2 (plane 63 t)" if "I1 t" for t
  proof -
    have "I2 (fold (row 63) ([0..62] @ 63 # []) t)"
      by (rule fold_switch [where ?I1.0 = I1 and ?I2.0 = I2 and f = "row 63", OF that])
         (use row1 rowS in auto)
    then show ?thesis unfolding plane_def using split by simp
  qed
  have "I2 (fold plane ([0..62] @ 63 # []) s)"
    by (rule fold_switch [where ?I1.0 = I1 and ?I2.0 = I2 and f = plane, OF s])
       (use plane1 planeS in auto)
  then have "I2 (fold plane [0..63] s)" using split by simp
  then show ?thesis
    by (simp add: chunk_loop_def CHUNK_SIZE_def pe)
qed

text \<open>The voxel of the last local position is the last one written, so it is read back.\<close>

lemma storeChunkData_reads_last:
  assumes inv: "svo_inv t"
    and rng: "0 \<le> pos_x wp" "pos_x wp < worldSize t" "0 \<le> pos_y wp" "pos_y wp < worldSize t"
      "0 \<le> pos_z wp" "pos_z wp < worldSize t"
    and wp: "wp = VoxelPos (pos_x (toVoxelPos cp CHUNK_SIZE) + 63)
                          (pos_y (toVoxelPos cp CHUNK_SIZE) + 63)
                          (pos_z (toVoxelPos cp CHUNK_SIZE) + 63)"
  shows "svo_getVoxel wp (storeChunkData cp c t) =
           Voxel_mk (materialID (chunk_getVoxel (VoxelPos 63 63 63) c)) 255"
proof -
  define I1 where "I1 t' = (svo_inv t' \<and> worldSize t' = worldSize t)" for t'
  define I2 where
    "I2 t' = (svo_getVoxel wp t' = Voxel_mk (materialID (chunk_getVoxel (VoxelPos 63 63 63) c)) 255)"
    for t'
  have "I2 (storeChunkData cp c t)"
    unfolding storeChunkData_def Let_def
  proof (rule chunk_loop_last [where ?I1.0 = I1 and ?I2.0 = I2])
    show "I1 t" using inv by (simp add: I1_def)
  next
    fix x y z t' assume "I1 t'"
    then show "I1 (svo_setVoxel
             (VoxelPos (pos_x (toVoxelPos cp CHUNK_SIZE) + x)
               (pos_y (toVoxelPos cp CHUNK_SIZE) + y) (pos_z (toVoxelPos cp CHUNK_SIZE) + z))
             (chunk_getVoxel (VoxelPos x y z) c) t')"
      by (simp add: I1_def svo_setVoxel_inv)
  next
    fix t' assume "I1 t'"
    then have "svo_inv t'" "worldSize t' = worldSize t" by (simp_all add: I1_def)
    with rng have "svo_getVoxel wp (svo_setVoxel wp (chunk_getVoxel (VoxelPos 63 63 63) c) t')
        = Voxel_mk (materialID (chunk_getVoxel (VoxelPos 63 63 63) c)) 255"
      by (intro svo_setVoxel_reads_back) simp_all
    then show "I2 (svo_setVoxel
             (VoxelPos (pos_x (toVoxelPos cp CHUNK_SIZE) + 63)
               (pos_y (toVoxelPos cp CHUNK_SIZE) + 63) (pos_z (toVoxelPos cp CHUNK_SIZE) + 63))
             (chunk_getVoxel (VoxelPos 63 63 63) c) t')"
      by (simp add: I2_def wp)
  qed
  then show ?thesis by (simp add: I2_def)
qed

text \<open>
  Claim C10. For every octree and every position, \<^verbatim>\<open>SparseVoxelOctree::getVoxel\<close> returns a
  voxel with \<open>flags = 0\<close> and \<open>structuralSupport = 255\<close>, whose health is 255 when
  \<^verbatim>\<open>findNode\<close> ends in a uniform leaf and 0 otherwise. \<^verbatim>\<open>setVoxel\<close> reads nothing of the
  voxel it is given but its material: changing the health, flags or support of the argument
  changes neither the octree written nor any later \<^verbatim>\<open>getVoxel\<close>. The material is
  reproduced: in a well-formed octree, a read at a position inside the world just written with
  \<open>v\<close> returns \<open>Voxel(v.materialID, 255)\<close>. \<^verbatim>\<open>storeChunkData\<close> depends on the chunk only
  through the materials \<^verbatim>\<open>getVoxel\<close> reads from it, and the position it writes last reads
  back the material of the chunk's voxel at \<open>(63, 63, 63)\<close> with health 255.
\<close>

theorem svo_getVoxel_shape:
  "flags (svo_getVoxel p svo) = 0 \<and>
   structuralSupport (svo_getVoxel p svo) = 255 \<and>
   health (svo_getVoxel p svo) =
     (case findNode p svo of
        Some node \<Rightarrow> if isLeaf node \<and> isUniform node then 255 else 0
      | None \<Rightarrow> 0) \<and>
   svo_setVoxel q (v\<lparr>health := h, flags := f, structuralSupport := s\<rparr>) svo = svo_setVoxel q v svo \<and>
   svo_getVoxel p (svo_setVoxel q v svo) =
     svo_getVoxel p (svo_setVoxel q (Voxel_mk (materialID v) 255) svo) \<and>
   (svo_inv svo \<and> inWorld q svo \<longrightarrow>
      svo_getVoxel q (svo_setVoxel q v svo) = Voxel_mk (materialID v) 255) \<and>
   ((\<forall>lp. materialID (chunk_getVoxel lp c') = materialID (chunk_getVoxel lp c)) \<longrightarrow>
      storeChunkData cp c' svo = storeChunkData cp c svo) \<and>
   (svo_inv svo \<and> inWorld (chunkCorner cp) svo \<longrightarrow>
      svo_getVoxel (chunkCorner cp) (storeChunkData cp c svo) =
        Voxel_mk (materialID (chunk_getVoxel (VoxelPos 63 63 63) c)) 255)"
proof -
  have a: "flags (svo_getVoxel p svo) = 0" "structuralSupport (svo_getVoxel p svo) = 255"
    by (simp_all add: svo_getVoxel_def Voxel_mk_def split: option.splits)
  have b: "health (svo_getVoxel p svo) =
     (case findNode p svo of
        Some node \<Rightarrow> if isLeaf node \<and> isUniform node then 255 else 0
      | None \<Rightarrow> 0)"
    by (simp add: svo_getVoxel_def Voxel_mk_def split: option.splits)
  have c: "svo_setVoxel q (v\<lparr>health := h, flags := f, structuralSupport := s\<rparr>) svo
             = svo_setVoxel q v svo"
    by (rule svo_setVoxel_materialID_only) simp
  have d: "svo_setVoxel q v svo = svo_setVoxel q (Voxel_mk (materialID v) 255) svo"
    by (rule svo_setVoxel_materialID_only) (simp add: Voxel_mk_def)
  have e: "svo_getVoxel q (svo_setVoxel q v svo) = Voxel_mk (materialID v) 255"
    if "svo_inv svo" "inWorld q svo"
    by (rule svo_setVoxel_reads_back) (use that in \<open>simp_all add: inWorld_def\<close>)
  have g: "storeChunkData cp c' svo = storeChunkData cp c svo"
    if "\<forall>lp. materialID (chunk_getVoxel lp c') = materialID (chunk_getVoxel lp c)"
    by (rule storeChunkData_materialID_only) (use that in simp)
  have k: "svo_getVoxel (chunkCorner cp) (storeChunkData cp c svo) =
        Voxel_mk (materialID (chunk_getVoxel (VoxelPos 63 63 63) c)) 255"
    if "svo_inv svo" "inWorld (chunkCorner cp) svo"
    by (rule storeChunkData_reads_last [where cp = cp])
       (use that in \<open>simp_all add: inWorld_def chunkCorner_def\<close>)
  from a b c d e g k show ?thesis by simp
qed

theorem svo_getVoxel_shape_witness:
  "svo_inv (SparseVoxelOctree_new 20) \<and>
   inWorld (VoxelPos 5 5 5) (SparseVoxelOctree_new 20) \<and>
   health taggedStone = 77 \<and> flags taggedStone = 3 \<and>
   svo_getVoxel (VoxelPos 5 5 5)
     (svo_setVoxel (VoxelPos 5 5 5) taggedStone (SparseVoxelOctree_new 20)) = Voxel_mk STONE 255 \<and>
   (\<forall>lp. materialID (chunk_getVoxel lp (cornerChunk (Voxel_mk STONE 255)))
          = materialID (chunk_getVoxel lp (cornerChunk taggedStone))) \<and>
   storeChunkData (ChunkPos 0 0 0) (cornerChunk (Voxel_mk STONE 255)) (SparseVoxelOctree_new 20)
     = storeChunkData (ChunkPos 0 0 0) (cornerChunk taggedStone) (SparseVoxelOctree_new 20) \<and>
   inWorld (chunkCorner (ChunkPos 0 0 0)) (SparseVoxelOctree_new 20) \<and>
   svo_getVoxel (VoxelPos 63 63 63)
     (storeChunkData (ChunkPos 0 0 0) (cornerChunk taggedStone) (SparseVoxelOctree_new 20))
     = Voxel_mk STONE 255"
proof -
  let ?t = "SparseVoxelOctree_new 20"
  have inv: "svo_inv ?t"
    by (simp add: svo_inv_def SparseVoxelOctree_new_def)
  have w: "inWorld (VoxelPos 5 5 5) ?t" "inWorld (chunkCorner (ChunkPos 0 0 0)) ?t"
    "chunkCorner (ChunkPos 0 0 0) = VoxelPos 63 63 63"
    by (simp_all add: inWorld_def chunkCorner_def toVoxelPos_def SparseVoxelOctree_new_def
        shl1_int32_20)
  have m: "\<forall>lp. materialID (chunk_getVoxel lp (cornerChunk (Voxel_mk STONE 255)))
          = materialID (chunk_getVoxel lp (cornerChunk taggedStone))"
    by (simp add: chunk_getVoxel_def chunk_setVoxel_def cornerChunk_def WorldChunk_new_def
        taggedStone_def Voxel_mk_def isValidLocalPos_def CHUNK_SIZE_def STONE_def AIR_def Let_def)
  have x: "materialID (chunk_getVoxel (VoxelPos 63 63 63) (cornerChunk taggedStone)) = STONE"
    "materialID taggedStone = STONE"
    by (simp_all add: chunk_getVoxel_def chunk_setVoxel_def cornerChunk_def WorldChunk_new_def
        taggedStone_def isValidLocalPos_def CHUNK_SIZE_def STONE_def AIR_def Let_def)
  have hf: "health taggedStone = 77" "flags taggedStone = 3"
    by (simp_all add: taggedStone_def)
  note inst = svo_getVoxel_shape [where p = "VoxelPos 5 5 5" and svo = ?t and q = "VoxelPos 5 5 5"
      and v = taggedStone and h = 0 and f = 0 and s = 0
      and c' = "cornerChunk (Voxel_mk STONE 255)" and c = "cornerChunk taggedStone"
      and cp = "ChunkPos 0 0 0"]
  from inst have i6: "svo_inv ?t \<and> inWorld (VoxelPos 5 5 5) ?t \<longrightarrow>
      svo_getVoxel (VoxelPos 5 5 5) (svo_setVoxel (VoxelPos 5 5 5) taggedStone ?t)
        = Voxel_mk (materialID taggedStone) 255"
    by blast
  from inst have i8: "svo_inv ?t \<and> inWorld (chunkCorner (ChunkPos 0 0 0)) ?t \<longrightarrow>
      svo_getVoxel (chunkCorner (ChunkPos 0 0 0))
        (storeChunkData (ChunkPos 0 0 0) (cornerChunk taggedStone) ?t)
        = Voxel_mk (materialID (chunk_getVoxel (VoxelPos 63 63 63) (cornerChunk taggedStone))) 255"
    by blast
  from i6 inv w(1) x(2) have r1: "svo_getVoxel (VoxelPos 5 5 5)
     (svo_setVoxel (VoxelPos 5 5 5) taggedStone ?t) = Voxel_mk STONE 255"
    by simp
  from inst m have r2: "storeChunkData (ChunkPos 0 0 0) (cornerChunk (Voxel_mk STONE 255)) ?t
     = storeChunkData (ChunkPos 0 0 0) (cornerChunk taggedStone) ?t"
    by blast
  from i8 inv w(2) x(1) have r3: "svo_getVoxel (VoxelPos 63 63 63)
     (storeChunkData (ChunkPos 0 0 0) (cornerChunk taggedStone) ?t) = Voxel_mk STONE 255"
    by (simp add: w(3))
  from inv w(1,2) hf r1 m r2 r3 show ?thesis by blast
qed

section \<open>Merging uniform children\<close>

lemma mergeUniformChildren_leaf: "isLeaf n \<Longrightarrow> mergeUniformChildren n = n"
  by (cases n) simp

lemma canMerge_loop_uniform:
  assumes "\<And>i. i \<in> set idxs \<Longrightarrow>
             hasChild n i \<and> (\<exists>c. getChild n i = Some c \<and> isLeaf c \<and> isUniform c \<and> nodeMaterialID c = M)"
  shows "canMerge_loop idxs n M True" and "idxs \<noteq> [] \<Longrightarrow> canMerge_loop idxs n fm False"
  using assms
proof (induction idxs arbitrary: fm)
  case Nil
  { case 1 show ?case by simp }
  { case 2 then show ?case by simp }
next
  case (Cons i idxs)
  { case 1
    from 1 [of i] obtain c where c: "hasChild n i" "getChild n i = Some c" "isLeaf c"
      "isUniform c" "nodeMaterialID c = M" by auto
    from Cons.IH(1) 1 have "canMerge_loop idxs n M True" by simp
    with c show ?case by simp }
  { case 2
    from 2(2) [of i] obtain c where c: "hasChild n i" "getChild n i = Some c" "isLeaf c"
      "isUniform c" "nodeMaterialID c = M" by auto
    from Cons.IH(1) 2(2) have "canMerge_loop idxs n M True" by simp
    with c show ?case by simp }
qed

lemma mergeUniformChildren_collapses:
  assumes nl: "\<not> isLeaf n" and cs: "children n = Some cs" "length cs = 8"
    and all: "\<And>i. i < 8 \<Longrightarrow>
      hasChild n i \<and> (\<exists>c. cs ! i = Some c \<and> isLeaf c \<and> isUniform c \<and> nodeMaterialID c = M)"
  shows "mergeUniformChildren n = SVONode 0 M (level n) True True None"
proof -
  obtain cm mat lv lf un ch where n: "n = SVONode cm mat lv lf un ch" by (cases n)
  have same: "map (\<lambda>(i, c). if hasChild n i then map_option mergeUniformChildren c else c)
                (zip [0..<length cs] cs) = cs"
  proof (rule nth_equalityI)
    show "length (map (\<lambda>(i, c). if hasChild n i then map_option mergeUniformChildren c else c)
                (zip [0..<length cs] cs)) = length cs" by simp
  next
    fix i assume "i < length (map (\<lambda>(i, c). if hasChild n i then map_option mergeUniformChildren c else c)
                (zip [0..<length cs] cs))"
    then have i: "i < 8" using cs by simp
    from all [OF i] obtain c where "cs ! i = Some c" "isLeaf c" by auto
    with i cs show "map (\<lambda>(i, c). if hasChild n i then map_option mergeUniformChildren c else c)
                (zip [0..<length cs] cs) ! i = cs ! i"
      by (simp add: mergeUniformChildren_leaf)
  qed
  have g: "hasChild n i \<and> (\<exists>c. getChild n i = Some c \<and> isLeaf c \<and> isUniform c \<and> nodeMaterialID c = M)"
    if "i < 8" for i
    using all [OF that] cs by (auto simp: getChild_eq)
  have "canMerge_loop [0..<8] n 255 False"
    by (rule canMerge_loop_uniform(2) [where M = M]) (use g in auto)
  then have can: "canMergeNode n"
    unfolding canMergeNode_def using nl cs by (simp add: CHILDREN_COUNT_def)
  have first: "firstChildMaterial [0..<CHILDREN_COUNT] n = M"
    using g [of 0] by (auto simp: CHILDREN_COUNT_def upt_conv_Cons)
  from nl cs n have "mergeUniformChildren n =
      set_nodeMaterialID (firstChildMaterial [0..<CHILDREN_COUNT] n)
        (set_isUniform True (set_isLeaf True (set_childMask 0 (set_children None n))))"
    using same can by (simp add: Let_def)
  with first n show ?thesis by simp
qed

text \<open>The root case of the merge: reads before and after.\<close>

lemma optimize_root_of_uniform_children:
  assumes r: "root svo = Some n" and d: "maxDepth svo \<ge> 2"
    and nl: "\<not> isLeaf n" and cs: "children n = Some cs" "length cs = 8"
    and all: "\<And>i. i < 8 \<Longrightarrow>
      hasChild n i \<and> (\<exists>c. cs ! i = Some c \<and> isLeaf c \<and> isUniform c \<and> nodeMaterialID c = M)"
  shows "root (optimize svo) = Some (SVONode 0 M (level n) True True None) \<and>
         svo_getVoxel p svo = Voxel_mk M 255 \<and>
         svo_getVoxel p (optimize svo) = Voxel_mk M 255"
proof -
  have m: "mergeUniformChildren n = SVONode 0 M (level n) True True None"
    by (rule mergeUniformChildren_collapses [OF nl cs all])
  then have a: "root (optimize svo) = Some (SVONode 0 M (level n) True True None)"
    "maxDepth (optimize svo) = maxDepth svo"
    using r by (simp_all add: optimize_def svo_compress_def)
  from d obtain l where l: "maxDepth svo = Suc l" "l \<ge> 1" by (cases "maxDepth svo") auto
  let ?i = "getChildIndex p (Suc l)"
  from all [of ?i] getChildIndex_lt [of p "Suc l"] obtain c where
    c: "hasChild n ?i" "cs ! ?i = Some c" "isLeaf c" "isUniform c" "nodeMaterialID c = M" by auto
  have "snd (findNode_loop (Suc l) p False id n) = snd (findNode_loop l p False id c)"
    using nl cs c by (simp add: Let_def getChild_eq split_beta del: findNode_loop.simps(1))
  also have "\<dots> = Some c" using c(3) by (simp add: findNode_loop_at_leaf)
  finally have b: "svo_getVoxel p svo = Voxel_mk M 255"
    using r l c by (simp add: svo_getVoxel_def findNode_def)
  have "svo_getVoxel p (optimize svo) = Voxel_mk M 255"
    using a by (simp add: svo_getVoxel_def findNode_def findNode_loop_at_leaf)
  with a b show ?thesis by simp
qed

lemma octants_svo_eq:
  "octants_svo =
     \<lparr>root = Some (SVONode 255 0 2 False True
               (Some (replicate 8 (Some (SVONode 0 STONE 1 True True None))))),
      maxDepth = 2, worldSize = 4\<rparr>"
  by code_simp

subsection \<open>When a node is merged\<close>

lemma uniformChildren_iff:
  "uniformChildren M n \<longleftrightarrow>
     \<not> isLeaf n \<and>
     (\<exists>cs. children n = Some cs \<and> length cs = 8 \<and>
       (\<forall>i<8. hasChild n i \<and>
          (\<exists>c. cs ! i = Some c \<and> isLeaf c \<and> isUniform c \<and> nodeMaterialID c = M)))"
  by (fastforce simp: uniformChildren_def CHILDREN_COUNT_def list_all_iff split: option.splits)

lemma uniformChildren_merge:
  assumes "uniformChildren M n"
  shows "mergeUniformChildren n = SVONode 0 M (level n) True True None"
proof -
  from assms obtain cs where cs: "\<not> isLeaf n" "children n = Some cs" "length cs = 8"
    "\<forall>i<8. hasChild n i \<and>
          (\<exists>c. cs ! i = Some c \<and> isLeaf c \<and> isUniform c \<and> nodeMaterialID c = M)"
    unfolding uniformChildren_iff by blast
  show ?thesis
    by (rule mergeUniformChildren_collapses [OF cs(1-3)]) (use cs(4) in blast)
qed

text \<open>What \<^verbatim>\<open>canMergeNode\<close> has checked when it answers true.\<close>

lemma canMerge_loop_sound:
  "canMerge_loop idxs n fm True \<Longrightarrow> i \<in> set idxs \<Longrightarrow> hasChild n i \<Longrightarrow>
     \<exists>c. getChild n i = Some c \<and> isLeaf c \<and> isUniform c \<and> nodeMaterialID c = fm"
  "canMerge_loop idxs n fm False \<Longrightarrow> i \<in> set idxs \<Longrightarrow> hasChild n i \<Longrightarrow>
     \<exists>c. getChild n i = Some c \<and> isLeaf c \<and> isUniform c \<and>
         nodeMaterialID c = firstChildMaterial idxs n"
proof (induction idxs arbitrary: fm)
  case Nil
  { case 1 then show ?case by simp }
  { case 2 then show ?case by simp }
next
  case (Cons j idxs)
  { case 1
    show ?case
    proof (cases "hasChild n j")
      case True
      with 1(1) obtain c where c: "getChild n j = Some c" "isLeaf c" "isUniform c"
        "nodeMaterialID c = fm" "canMerge_loop idxs n fm True"
        by (auto split: option.splits if_splits)
      show ?thesis
      proof (cases "i = j")
        case True with c show ?thesis by simp
      next
        case False
        with 1(2) have "i \<in> set idxs" by simp
        from Cons.IH(1) [OF c(5) this 1(3)] show ?thesis .
      qed
    next
      case False
      with 1 have "canMerge_loop idxs n fm True" "i \<in> set idxs" by auto
      from Cons.IH(1) [OF this 1(3)] show ?thesis .
    qed }
  { case 2
    show ?case
    proof (cases "hasChild n j")
      case True
      with 2(1) obtain c where c: "getChild n j = Some c" "isLeaf c" "isUniform c"
        "canMerge_loop idxs n (nodeMaterialID c) True"
        by (auto split: option.splits if_splits)
      from True c(1) have f: "firstChildMaterial (j # idxs) n = nodeMaterialID c" by simp
      show ?thesis
      proof (cases "i = j")
        case True with c f show ?thesis by simp
      next
        case False
        with 2(2) have "i \<in> set idxs" by simp
        from Cons.IH(1) [OF c(4) this 2(3)] f show ?thesis by simp
      qed
    next
      case False
      with 2 have m: "canMerge_loop idxs n fm False" "i \<in> set idxs" by auto
      from False have "firstChildMaterial (j # idxs) n = firstChildMaterial idxs n" by simp
      with Cons.IH(2) [OF m 2(3)] show ?thesis by simp
    qed }
qed

lemma canMergeNode_sound:
  assumes "canMergeNode n" "i < 8" "hasChild n i"
  shows "\<exists>c. getChild n i = Some c \<and> isLeaf c \<and> isUniform c \<and>
             nodeMaterialID c = firstChildMaterial [0..<CHILDREN_COUNT] n"
proof -
  from assms(1) have "canMerge_loop [0..<CHILDREN_COUNT] n 255 False"
    by (simp add: canMergeNode_def split: if_splits)
  from canMerge_loop_sound(2) [OF this _ assms(3)] assms(2) show ?thesis
    by (simp add: CHILDREN_COUNT_def)
qed

text \<open>\<^verbatim>\<open>mergeUniformChildren\<close> at an inner node that has its array.\<close>

lemma mergedChildren_length [simp]: "length (mergedChildren n cs) = length cs"
  by (simp add: mergedChildren_def)

lemma mergedChildren_nth:
  "i < length cs \<Longrightarrow>
   mergedChildren n cs ! i = (if hasChild n i then map_option mergeUniformChildren (cs ! i) else cs ! i)"
  by (simp add: mergedChildren_def)

lemma mergeUniformChildren_inner:
  assumes "\<not> isLeaf n" "children n = Some cs"
  shows "mergeUniformChildren n =
    (let n1 = set_children (Some (mergedChildren n cs)) n
     in if canMergeNode n1
        then set_nodeMaterialID (firstChildMaterial [0..<CHILDREN_COUNT] n1)
               (set_isUniform True (set_isLeaf True (set_childMask 0 (set_children None n1))))
        else n1)"
  using assms by (cases n) (simp add: mergedChildren_def Let_def)

subsection \<open>Reads along the path to a merged node\<close>

lemma inRegion_SucE:
  assumes "inRegion (Suc l) p M n"
  obtains (here) "uniformChildren M n"
  | (below) cs c where "\<not> isLeaf n" "hasChild n (getChildIndex p (Suc l))"
      "children n = Some cs" "length cs = 8" "cs ! getChildIndex p (Suc l) = Some c"
      "inRegion l p M c"
  using assms by (auto simp: CHILDREN_COUNT_def split: option.splits)

lemma findNode_loop_step:
  assumes "\<not> isLeaf n" "hasChild n (getChildIndex p (Suc l))" "children n = Some cs"
    "cs ! getChildIndex p (Suc l) = Some c"
  shows "snd (findNode_loop (Suc l) p False f n) = snd (findNode_loop l p False f c)"
  using assms by (simp add: Let_def getChild_eq split_beta del: findNode_loop.simps(1))

text \<open>Reads in the region before the merge.\<close>

lemma inRegion_find:
  "inRegion l p M n \<Longrightarrow>
   \<exists>nd. snd (findNode_loop l p False f n) = Some nd \<and> isLeaf nd \<and> isUniform nd \<and>
        nodeMaterialID nd = M"
proof (induction l arbitrary: n)
  case 0
  then show ?case by simp
next
  case (Suc l)
  let ?i = "getChildIndex p (Suc l)"
  have i8: "?i < 8" by (rule getChildIndex_lt)
  from Suc.prems show ?case
  proof (cases rule: inRegion_SucE)
    case here
    with i8 obtain cs c where c: "\<not> isLeaf n" "children n = Some cs" "hasChild n ?i"
      "cs ! ?i = Some c" "isLeaf c" "isUniform c" "nodeMaterialID c = M"
      unfolding uniformChildren_iff by blast
    from findNode_loop_step [OF c(1,3,2,4)] c(5)
    have "snd (findNode_loop (Suc l) p False f n) = Some c"
      by (simp add: findNode_loop_at_leaf del: findNode_loop.simps)
    with c show ?thesis by simp
  next
    case (below cs c)
    from Suc.IH [OF below(6)] findNode_loop_step [OF below(1,2,3,5)] show ?thesis
      by (simp del: findNode_loop.simps)
  qed
qed

text \<open>Reads in the region after the merge end in a uniform leaf of \<open>M\<close> without children.\<close>

lemma inRegion_find_merged:
  "inRegion l p M n \<Longrightarrow>
   \<exists>nd. snd (findNode_loop l p False f (mergeUniformChildren n)) = Some nd \<and> isLeaf nd \<and>
        isUniform nd \<and> nodeMaterialID nd = M \<and> children nd = None \<and> childMask nd = 0"
proof (induction l arbitrary: n)
  case 0
  then show ?case by simp
next
  case (Suc l)
  let ?i = "getChildIndex p (Suc l)"
  have i8: "?i < 8" by (rule getChildIndex_lt)
  from Suc.prems show ?case
  proof (cases rule: inRegion_SucE)
    case here
    then show ?thesis
      by (simp add: uniformChildren_merge findNode_loop_at_leaf del: findNode_loop.simps)
  next
    case (below cs c)
    let ?n1 = "set_children (Some (mergedChildren n cs)) n"
    let ?mc = "mergeUniformChildren c"
    from Suc.IH [OF below(6)] obtain nd where
      nd: "snd (findNode_loop l p False f ?mc) = Some nd" "isLeaf nd" "isUniform nd"
        "nodeMaterialID nd = M" "children nd = None" "childMask nd = 0" by blast
    have mi: "mergedChildren n cs ! ?i = Some ?mc"
      using below i8 by (simp add: mergedChildren_nth)
    have n1: "\<not> isLeaf ?n1" "hasChild ?n1 ?i" "children ?n1 = Some (mergedChildren n cs)"
      using below by simp_all
    show ?thesis
    proof (cases "canMergeNode ?n1")
      case True
      from canMergeNode_sound [OF True i8 n1(2)] mi below(2)
      have leaf: "isLeaf ?mc" "nodeMaterialID ?mc = firstChildMaterial [0..<CHILDREN_COUNT] ?n1"
        by (auto simp: getChild_eq)
      from nd(1) leaf(1) have "nd = ?mc"
        by (simp add: findNode_loop_at_leaf del: findNode_loop.simps)
      with nd(4) leaf(2) have "firstChildMaterial [0..<CHILDREN_COUNT] ?n1 = M" by simp
      with True below(1,3) show ?thesis
        by (simp add: mergeUniformChildren_inner Let_def findNode_loop_at_leaf
            del: findNode_loop.simps)
    next
      case False
      with below(1,3) have "mergeUniformChildren n = ?n1"
        by (simp add: mergeUniformChildren_inner Let_def)
      with findNode_loop_step [OF n1(1,2,3) mi] nd show ?thesis
        by (simp del: findNode_loop.simps)
    qed
  qed
qed

subsection \<open>Counting nodes\<close>

lemma countNodes_eq:
  "countNodes n =
     Suc (case children n of None \<Rightarrow> 0
          | Some cs \<Rightarrow> sum_list (map (case_option 0 countNodes) cs))"
  by (cases n) (simp split: option.splits cong: map_cong)

lemma countNodes_child:
  assumes "children n = Some cs" "j < length cs" "cs ! j = Some c"
  shows "countNodes c < countNodes n"
proof -
  have "case_option 0 countNodes (cs ! j) \<le> sum_list (map (case_option 0 countNodes) cs)"
    using assms(2) by (intro member_le_sum_list) simp_all
  with assms show ?thesis by (simp add: countNodes_eq [of n])
qed

lemma sum_list_pointwise_le:
  fixes f g :: "'a \<Rightarrow> nat"
  assumes "length xs = length ys" "\<And>j. j < length xs \<Longrightarrow> f (xs ! j) \<le> g (ys ! j)"
  shows "sum_list (map f xs) \<le> sum_list (map g ys)"
  using assms
proof (induction xs ys rule: list_induct2)
  case Nil
  then show ?case by simp
next
  case (Cons x xs y ys)
  from Cons.prems [of 0] have "f x \<le> g y" by simp
  moreover have "sum_list (map f xs) \<le> sum_list (map g ys)"
    by (rule Cons.IH) (use Cons.prems [of "Suc j" for j] in auto)
  ultimately show ?case by simp
qed

lemma sum_list_pointwise_less:
  fixes f g :: "'a \<Rightarrow> nat"
  assumes "length xs = length ys" "\<And>j. j < length xs \<Longrightarrow> f (xs ! j) \<le> g (ys ! j)"
    "k < length xs" "f (xs ! k) < g (ys ! k)"
  shows "sum_list (map f xs) < sum_list (map g ys)"
  using assms
proof (induction xs ys arbitrary: k rule: list_induct2)
  case Nil
  then show ?case by simp
next
  case (Cons x xs y ys)
  from Cons.prems(1) [of 0] have h: "f x \<le> g y" by simp
  have t: "sum_list (map f xs) \<le> sum_list (map g ys)"
    by (rule sum_list_pointwise_le [OF Cons.hyps]) (use Cons.prems(1) [of "Suc j" for j] in auto)
  show ?case
  proof (cases k)
    case 0
    with Cons.prems(3) have "f x < g y" by simp
    with t show ?thesis by simp
  next
    case (Suc k')
    have "sum_list (map f xs) < sum_list (map g ys)"
      by (rule Cons.IH [of k'])
         (use Cons.prems(1) [of "Suc j" for j] Cons.prems(2,3) Suc in auto)
    with h show ?thesis by simp
  qed
qed

subsection \<open>The number of nodes\<close>

lemma mergeUniformChildren_no_array:
  "\<not> isLeaf n \<Longrightarrow> children n = None \<Longrightarrow> mergeUniformChildren n = n"
  by (cases n) (simp add: canMergeNode_def)

lemma countNodes_collapsed [simp]:
  "countNodes (set_nodeMaterialID m
     (set_isUniform u (set_isLeaf b (set_childMask k (set_children None n))))) = 1"
  by (simp add: countNodes_eq)

lemma countNodes_set_children:
  "countNodes (set_children (Some cs) n) = Suc (sum_list (map (case_option 0 countNodes) cs))"
  by (simp add: countNodes_eq)

lemma countNodes_pos: "0 < countNodes n"
  by (simp add: countNodes_eq)

text \<open>The merge never adds nodes.\<close>

lemma mergedChildren_le:
  assumes "j < length cs"
    and "\<And>c. cs ! j = Some c \<Longrightarrow> countNodes (mergeUniformChildren c) \<le> countNodes c"
  shows "case_option 0 countNodes (mergedChildren n cs ! j) \<le> case_option 0 countNodes (cs ! j)"
  using assms by (cases "cs ! j") (simp_all add: mergedChildren_nth)

lemma countNodes_merge_le: "countNodes (mergeUniformChildren n) \<le> countNodes n"
proof (induction "countNodes n" arbitrary: n rule: less_induct)
  case less
  show ?case
  proof (cases "isLeaf n")
    case True
    then show ?thesis by (simp add: mergeUniformChildren_leaf)
  next
    case False
    show ?thesis
    proof (cases "children n")
      case None
      with False show ?thesis by (simp add: mergeUniformChildren_no_array)
    next
      case (Some cs)
      have ih: "countNodes (mergeUniformChildren c) \<le> countNodes c"
        if "j < length cs" "cs ! j = Some c" for j c
        by (rule less.hyps) (rule countNodes_child [OF Some that])
      have le: "case_option 0 countNodes (mergedChildren n cs ! j)
                  \<le> case_option 0 countNodes (cs ! j)" if "j < length cs" for j
        by (rule mergedChildren_le [OF that]) (rule ih [OF that])
      have "sum_list (map (case_option 0 countNodes) (mergedChildren n cs))
            \<le> sum_list (map (case_option 0 countNodes) cs)"
        by (rule sum_list_pointwise_le) (simp_all add: le)
      with False Some countNodes_pos [of n] show ?thesis
        by (simp add: mergeUniformChildren_inner Let_def countNodes_set_children
            countNodes_eq [of n])
    qed
  qed
qed

text \<open>It removes at least one node wherever a node with 8 uniform children sits.\<close>

lemma countNodes_merge_less:
  "inRegion l p M n \<Longrightarrow> countNodes (mergeUniformChildren n) < countNodes n"
proof (induction l arbitrary: n)
  case 0
  then show ?case by simp
next
  case (Suc l)
  let ?i = "getChildIndex p (Suc l)"
  have i8: "?i < 8" by (rule getChildIndex_lt)
  from Suc.prems show ?case
  proof (cases rule: inRegion_SucE)
    case here
    then obtain cs c where c: "children n = Some cs" "length cs = 8" "cs ! 0 = Some c"
      unfolding uniformChildren_iff by fastforce
    from countNodes_child [OF c(1) _ c(3)] c(2) countNodes_pos [of c]
    have "1 < countNodes n" by simp
    with here show ?thesis
      by (simp add: uniformChildren_merge countNodes_eq [of "SVONode 0 M (level n) True True None"])
  next
    case (below cs c)
    from countNodes_child [OF below(3) _ below(5)] below(4) i8 countNodes_pos [of c]
    have big: "1 < countNodes n" by simp
    have ih: "countNodes (mergeUniformChildren c) < countNodes c"
      by (rule Suc.IH [OF below(6)])
    have le: "case_option 0 countNodes (mergedChildren n cs ! j)
                \<le> case_option 0 countNodes (cs ! j)" if "j < length cs" for j
      by (rule mergedChildren_le [OF that]) (rule countNodes_merge_le)
    have "sum_list (map (case_option 0 countNodes) (mergedChildren n cs))
          < sum_list (map (case_option 0 countNodes) cs)"
    proof (rule sum_list_pointwise_less [where k = ?i])
      show "length (mergedChildren n cs) = length cs" by simp
      show "?i < length (mergedChildren n cs)" using below(4) i8 by simp
      show "case_option 0 countNodes (mergedChildren n cs ! ?i)
              < case_option 0 countNodes (cs ! ?i)"
        using below i8 ih by (simp add: mergedChildren_nth)
    qed (use le in simp)
    with below(1,3) big show ?thesis
      by (simp add: mergeUniformChildren_inner Let_def countNodes_set_children
          countNodes_eq [of n])
  qed
qed

text \<open>\<^verbatim>\<open>getNodeCount\<close> is a placeholder and does not see the merge.\<close>

lemma getNodeCount_placeholder: "getNodeCount (optimize svo) = getNodeCount svo"
  by (simp add: getNodeCount_def)

text \<open>
  Claim C5. Let \<open>p\<close> be a position in the region of a node whose 8 children are all
  present and are uniform leaves of one material \<open>M\<close>, that is, the walk of
  \<^verbatim>\<open>findNode\<close> for \<open>p\<close> passes through that node. Then \<^verbatim>\<open>getVoxel\<close> reads
  \<open>Voxel(M, 255)\<close> at \<open>p\<close>, and after \<^verbatim>\<open>optimize\<close> it reads the same voxel, now from a
  uniform leaf of \<open>M\<close> without child array and with an empty child mask; the number of nodes
  of the octree is strictly smaller after \<^verbatim>\<open>optimize\<close>; and \<^verbatim>\<open>mergeUniformChildren\<close>
  turns every such node into the single uniform leaf of \<open>M\<close> at the node's level.
\<close>

theorem optimize_merges_uniform_children:
  assumes "svo_inRegion p M svo"
  shows "svo_getVoxel p svo = Voxel_mk M 255 \<and>
         svo_getVoxel p (optimize svo) = svo_getVoxel p svo \<and>
         (\<exists>nd. findNode p (optimize svo) = Some nd \<and> isLeaf nd \<and> isUniform nd \<and>
               nodeMaterialID nd = M \<and> children nd = None \<and> childMask nd = 0) \<and>
         svo_countNodes (optimize svo) < svo_countNodes svo \<and>
         (\<forall>n. uniformChildren M n \<longrightarrow>
              mergeUniformChildren n = SVONode 0 M (level n) True True None)"
proof -
  from assms obtain r where r: "root svo = Some r" "inRegion (maxDepth svo) p M r"
    by (auto simp: svo_inRegion_def split: option.splits)
  have o: "root (optimize svo) = Some (mergeUniformChildren r)"
    "maxDepth (optimize svo) = maxDepth svo"
    using r(1) by (simp_all add: optimize_def svo_compress_def)
  from inRegion_find [OF r(2), of id] r(1)
  have before: "svo_getVoxel p svo = Voxel_mk M 255"
    by (auto simp: svo_getVoxel_def findNode_def)
  from inRegion_find_merged [OF r(2), of id] obtain nd where
    nd: "findNode p (optimize svo) = Some nd" "isLeaf nd" "isUniform nd" "nodeMaterialID nd = M"
      "children nd = None" "childMask nd = 0"
    by (auto simp: findNode_def o)
  then have after: "svo_getVoxel p (optimize svo) = Voxel_mk M 255"
    by (simp add: svo_getVoxel_def)
  from countNodes_merge_less [OF r(2)]
  have count: "svo_countNodes (optimize svo) < svo_countNodes svo"
    by (simp add: svo_countNodes_def o r(1))
  from before after nd count show ?thesis
    by (auto simp: uniformChildren_merge)
qed

theorem optimize_merges_uniform_children_witness:
  "svo_inRegion (VoxelPos 1 1 1) STONE octants_svo3 \<and>
   svo_getVoxel (VoxelPos 1 1 1) octants_svo3 = Voxel_mk STONE 255 \<and>
   svo_getVoxel (VoxelPos 1 1 1) (optimize octants_svo3) = Voxel_mk STONE 255 \<and>
   svo_countNodes octants_svo3 = 10 \<and>
   svo_countNodes (optimize octants_svo3) = 1 \<and>
   svo_countNodes (optimize octants_svo3) < svo_countNodes octants_svo3"
proof -
  have h: "svo_inRegion (VoxelPos 1 1 1) STONE octants_svo3" by code_simp
  have c: "svo_countNodes octants_svo3 = 10" "svo_countNodes (optimize octants_svo3) = 1"
    by code_simp+
  from optimize_merges_uniform_children [OF h] h c show ?thesis by simp
qed

section \<open>Supporting properties\<close>

text \<open>
  A write at a valid local position in state \<^verbatim>\<open>ACTIVE\<close> leaves the chunk in state
  \<^verbatim>\<open>DIRTY_MESH\<close>, which \<^verbatim>\<open>isDirty\<close> and \<^verbatim>\<open>needsMeshUpdate\<close> accept.
\<close>

lemma setVoxel_marks_dirty:
  assumes "isValidLocalPos pos" "state c = ACTIVE"
  shows "state (chunk_setVoxel pos v c) = DIRTY_MESH \<and>
         isDirty (chunk_setVoxel pos v c) \<and> needsMeshUpdate (chunk_setVoxel pos v c)"
  using assms
  by (auto simp: chunk_setVoxel_def Let_def isDirty_def needsMeshUpdate_def split: option.splits)

lemma setVoxel_marks_dirty_example:
  "isValidLocalPos (VoxelPos 1 2 3) \<and>
   state ((WorldChunk_new (ChunkPos 0 0 0))\<lparr>state := ACTIVE\<rparr>) = ACTIVE \<and>
   state (chunk_setVoxel (VoxelPos 1 2 3) (Voxel_mk STONE 255)
            ((WorldChunk_new (ChunkPos 0 0 0))\<lparr>state := ACTIVE\<rparr>)) = DIRTY_MESH"
proof -
  have v: "isValidLocalPos (VoxelPos 1 2 3)"
    by (simp add: isValidLocalPos_def CHUNK_SIZE_def)
  have s: "state ((WorldChunk_new (ChunkPos 0 0 0))\<lparr>state := ACTIVE\<rparr>) = ACTIVE" by simp
  from setVoxel_marks_dirty [OF v s, of "Voxel_mk STONE 255"] v s show ?thesis by simp
qed

text \<open>
  For a voxel position without negative components, the truncating division and remainder of
  the constructor and of the manager are the floor division and the modulus, and the local
  position is valid.
\<close>

lemma ChunkPos_of_nonnegative:
  assumes "0 \<le> pos_x p" "0 \<le> pos_y p" "0 \<le> pos_z p"
  shows "ChunkPos_of p CHUNK_SIZE =
           ChunkPos (pos_x p div CHUNK_SIZE) (pos_y p div CHUNK_SIZE) (pos_z p div CHUNK_SIZE) \<and>
         localPosOf p =
           VoxelPos (pos_x p mod CHUNK_SIZE) (pos_y p mod CHUNK_SIZE) (pos_z p mod CHUNK_SIZE) \<and>
         isValidLocalPos (localPosOf p)"
  using assms
  by (simp add: ChunkPos_of_def localPosOf_def CHUNK_SIZE_def signed_divide_int_def
      signed_modulo_int_def isValidLocalPos_def sgn_if)

lemma ChunkPos_of_nonnegative_example:
  "0 \<le> pos_x (VoxelPos 70 5 130) \<and> 0 \<le> pos_y (VoxelPos 70 5 130) \<and>
   0 \<le> pos_z (VoxelPos 70 5 130) \<and>
   ChunkPos_of (VoxelPos 70 5 130) CHUNK_SIZE = ChunkPos 1 0 2 \<and>
   localPosOf (VoxelPos 70 5 130) = VoxelPos 6 5 2"
  using ChunkPos_of_nonnegative [of "VoxelPos 70 5 130"]
  by (simp add: CHUNK_SIZE_def)

text \<open>
  \<^verbatim>\<open>loadChunk\<close> of a position that is not in the active table creates the chunk under a
  fresh handle, makes it visible through \<^verbatim>\<open>getChunk\<close> and appends one task; a further
  \<^verbatim>\<open>loadChunk\<close> of that position, with any priority, changes nothing.
\<close>

lemma loadChunk_once:
  assumes "activeChunks m p = None"
  shows "getChunk p (loadChunk p prio m) = Some (nextHandle m) \<and>
         chunkAt (nextHandle m) (loadChunk p prio m) = Some (WorldChunk_new p) \<and>
         loadingQueue (loadChunk p prio m) =
           loadingQueue m @ [\<lparr>task_position = p, task_chunk = nextHandle m, priority = prio\<rparr>] \<and>
         loadChunk p prio' (loadChunk p prio m) = loadChunk p prio m"
  using assms by (simp add: loadChunk_def createChunk_def getChunk_def chunkAt_def)

lemma loadChunk_once_example:
  "activeChunks VoxelWorldManager_new (ChunkPos 3 0 0) = None \<and>
   getChunk (ChunkPos 3 0 0) (loadChunk (ChunkPos 3 0 0) HIGH VoxelWorldManager_new) = Some 0 \<and>
   length (loadingQueue (loadChunk (ChunkPos 3 0 0) LOW
             (loadChunk (ChunkPos 3 0 0) HIGH VoxelWorldManager_new))) = 1"
proof -
  have n: "activeChunks VoxelWorldManager_new (ChunkPos 3 0 0) = None"
    by (simp add: VoxelWorldManager_new_def)
  from loadChunk_once [OF n, of HIGH LOW] n show ?thesis
    by (simp add: VoxelWorldManager_new_def)
qed

text \<open>The merge at the root of the octree with eight uniform stone leaves, through the general lemma.\<close>

lemma optimize_root_example:
  "root octants_svo =
     Some (SVONode 255 0 2 False True
            (Some (replicate 8 (Some (SVONode 0 STONE 1 True True None))))) \<and>
   root (optimize octants_svo) = Some (SVONode 0 STONE 2 True True None) \<and>
   svo_getVoxel (VoxelPos 1 3 2) octants_svo = Voxel_mk STONE 255 \<and>
   svo_getVoxel (VoxelPos 1 3 2) (optimize octants_svo) = Voxel_mk STONE 255"
proof -
  let ?n = "SVONode 255 0 2 False True (Some (replicate 8 (Some (SVONode 0 STONE 1 True True None))))"
  have r: "root octants_svo = Some ?n" by (simp add: octants_svo_eq)
  have d: "maxDepth octants_svo \<ge> 2" by (simp add: octants_svo_eq)
  have nl: "\<not> isLeaf ?n" by simp
  have cs: "children ?n = Some (replicate 8 (Some (SVONode 0 STONE 1 True True None)))"
    "length (replicate 8 (Some (SVONode 0 STONE 1 True True None))) = 8" by simp_all
  have all: "hasChild ?n i \<and>
      (\<exists>c. replicate 8 (Some (SVONode 0 STONE 1 True True None)) ! i = Some c \<and> isLeaf c \<and>
           isUniform c \<and> nodeMaterialID c = STONE)" if "i < 8" for i
  proof -
    from that have "i \<in> {0, 1, 2, 3, 4, 5, 6, 7}" by auto
    then have "hasChild ?n i" by (auto simp: hasChild_def)
    with that show ?thesis by simp
  qed
  from optimize_root_of_uniform_children [OF r d nl cs all, of "VoxelPos 1 3 2"] r
  show ?thesis by simp
qed

text \<open>The dense chunk used above is what \<^verbatim>\<open>decompress\<close> makes of a freshly constructed chunk.\<close>

lemma decompress_new: "decompress (WorldChunk_new p) = denseAirChunk p"
proof -
  have "chunk_loop (\<lambda>x y z dense. dense) d = d" for d :: "Voxel list"
    by (rule chunk_loop_inv [where I = "\<lambda>d'. d' = d"]) simp_all
  then show ?thesis
    by (simp add: decompress_def WorldChunk_new_def denseAirChunk_def)
qed

end
